theory Spec2Isabelle
  imports Main
begin

section \<open>Data model of the offline sync queue (SyncContext)\<close>

text \<open>
  The queue engine is the React provider \<open>SyncProvider\<close>. Its operations are
  \<open>addOfflineAction\<close>, \<open>syncNow\<close>, \<open>retryFailedAction\<close> and
  \<open>discardFailedAction\<close>. Each is an \<open>async\<close> function that reads the React state
  of the render that created it and yields at every \<open>await\<close>; the model passes the
  state explicitly and names what a closure captured where it may be out of date.
\<close>

text \<open>
  Modelled from the spec: the declaration of \<open>OfflineActionType\<close> is in a types
  module that is not among the sources. The spec describes a closed set of tags and an
  unknown action type as a defensive case. The \<open>switch\<close> of \<open>syncNow\<close> has one
  case for each of the three tags below and no \<open>default\<close>; \<open>OTHER_TYPE\<close> stands
  for any tag that matches none of the three cases.
\<close>

datatype OfflineActionType =
  SUBMIT_ACTIVITY | GRADE_ACTIVITY | POST_NOTICE | OTHER_TYPE string

text \<open>
  An \<open>OfflineAction\<close> (declared in the same types module), with the fields that
  \<open>addOfflineAction\<close> writes and \<open>syncNow\<close> adds. The record field \<open>id\<close> is
  \<open>action_id\<close> here and \<open>type\<close> is \<open>action_type\<close>. \<open>retryCount\<close> is read as
  \<open>action.retryCount || 0\<close>, so it may be missing; \<open>lastError\<close> is missing until a
  failure and is set to \<open>undefined\<close> by a retry. The payload is opaque.
\<close>

record 'p OfflineAction =
  action_id :: string
  action_type :: OfflineActionType
  payload :: 'p
  timestamp :: nat
  retryCount :: "nat option"
  lastError :: "string option"

record SyncProgress =
  current :: nat
  total :: nat

definition QUEUE_KEY :: string where
  "QUEUE_KEY = ''offline_action_queue''"

definition FAILED_QUEUE_KEY :: string where
  "FAILED_QUEUE_KEY = ''offline_failed_queue''"

definition MAX_RETRIES :: nat where
  "MAX_RETRIES = 3"

text \<open>
  The two toasts of \<open>syncNow\<close>: \<open>ToastError n\<close> is
  \<open>addToast(`${n} itens falharam permanentemente. ...`, 'error')\<close> and
  \<open>ToastSuccess n\<close> is \<open>addToast(`${n} itens sincronizados com sucesso!`, 'success')\<close>.
\<close>

datatype toast = ToastError nat | ToastSuccess nat

text \<open>
  The state of the provider: the four \<open>useState\<close> cells, the key-value store of
  \<open>idb-keyval\<close> (a map from keys to the stored sequences) and the toasts shown so far.
\<close>

record 'p engine =
  queue :: "'p OfflineAction list"
  failedQueue :: "'p OfflineAction list"
  isSyncing :: bool
  syncProgress :: "SyncProgress option"
  idb :: "string \<rightharpoonup> 'p OfflineAction list"
  toasts :: "toast list"

text \<open>
  A rejected promise of \<open>idb-keyval\<close> is the only error an operation lets escape.
  \<open>Inl StorageError\<close> is the rejection of the operation's promise, \<open>Inr ()\<close> its
  fulfilment.
\<close>

datatype error = StorageError

text \<open>
  Which calls of \<open>get\<close> and \<open>set\<close> reject during one operation. Every operation
  reads or writes a key at most once, so one answer per key covers every behaviour of the
  store. A rejected \<open>set\<close> leaves the store as it was.
\<close>

record idb_faults =
  get_throws :: "string \<Rightarrow> bool"
  set_throws :: "string \<Rightarrow> bool"

text \<open>
  The executors are imported from a module that is not among the sources; they are
  parameters of the model. They are remote operations: each takes the payload and the
  state \<open>'w\<close> of the world outside the engine, and either resolves or throws an error
  object whose \<open>message\<close> is the string carried by \<open>Rejected\<close>. The new state of
  the world is returned in both cases.
\<close>

datatype exec_result = Resolved | Rejected string

record ('p, 'w) executors =
  executeSubmitActivity :: "'p \<Rightarrow> 'w \<Rightarrow> exec_result \<times> 'w"
  executeGradeActivity :: "'p \<Rightarrow> 'w \<Rightarrow> exec_result \<times> 'w"
  executePostNotice :: "'p \<Rightarrow> 'w \<Rightarrow> exec_result \<times> 'w"

section \<open>addOfflineAction\<close>

text \<open>
  The object literal \<open>newAction\<close>: \<open>newId\<close> is the value of
  \<open>crypto.randomUUID()\<close> and \<open>now\<close> that of \<open>Date.now()\<close>.
\<close>

definition newAction :: "string \<Rightarrow> nat \<Rightarrow> OfflineActionType \<Rightarrow> 'p \<Rightarrow> 'p OfflineAction" where
  "newAction newId now ty pl =
     \<lparr>action_id = newId, action_type = ty, payload = pl,
      timestamp = now, retryCount = Some 0, lastError = None\<rparr>"

text \<open>
  \<open>addOfflineAction\<close> is a \<open>useCallback\<close> with the dependency \<open>[queue]\<close>: it is
  rebuilt at every render in which \<open>queue\<close> has changed, and the \<open>queue\<close> it
  spreads into \<open>updatedQueue\<close> is the one of the render that built it. \<open>cQueue\<close> is
  that captured queue. A caller that holds the callback across an \<open>await\<close> (as the
  submit handler does, which awaits \<open>getDoc\<close> before it calls) may call it when the
  engine's queue is no longer \<open>cQueue\<close>. \<open>setQueue\<close> runs before the awaited
  \<open>set\<close>, so the in-memory queue is updated even when the write rejects.
\<close>

definition addOfflineAction ::
  "idb_faults \<Rightarrow> 'p OfflineAction list \<Rightarrow> string \<Rightarrow> nat \<Rightarrow> OfflineActionType \<Rightarrow> 'p
     \<Rightarrow> 'p engine \<Rightarrow> (error + unit) \<times> 'p engine" where
  "addOfflineAction f cQueue newId now ty pl st =
     (let updatedQueue = cQueue @ [newAction newId now ty pl];
          st1 = st\<lparr>queue := updatedQueue\<rparr>
      in if set_throws f QUEUE_KEY then (Inl StorageError, st1)
         else (Inr (), st1\<lparr>idb := (idb st1)(QUEUE_KEY \<mapsto> updatedQueue)\<rparr>))"

text \<open>
  A call through the callback of the latest render, whose closure holds the current
  \<open>queue\<close>.
\<close>

definition addOfflineAction_latest ::
  "idb_faults \<Rightarrow> string \<Rightarrow> nat \<Rightarrow> OfflineActionType \<Rightarrow> 'p \<Rightarrow> 'p engine
     \<Rightarrow> (error + unit) \<times> 'p engine" where
  "addOfflineAction_latest f newId now ty pl st =
     addOfflineAction f (queue st) newId now ty pl st"

text \<open>
  What a call of \<open>addOfflineAction\<close> does to the engine state, for a call through a
  callback that captured \<open>cQueue\<close> and for a call through the callback of the latest
  render.
\<close>

definition enqueued ::
  "idb_faults \<Rightarrow> 'p OfflineAction list \<Rightarrow> string \<Rightarrow> nat \<Rightarrow> OfflineActionType \<Rightarrow> 'p
     \<Rightarrow> 'p engine \<Rightarrow> 'p engine" where
  "enqueued f cQueue newId now ty pl st = snd (addOfflineAction f cQueue newId now ty pl st)"

definition enqueued_latest ::
  "idb_faults \<Rightarrow> string \<Rightarrow> nat \<Rightarrow> OfflineActionType \<Rightarrow> 'p \<Rightarrow> 'p engine \<Rightarrow> 'p engine" where
  "enqueued_latest f newId now ty pl st = snd (addOfflineAction_latest f newId now ty pl st)"

section \<open>syncNow\<close>

text \<open>
  The \<open>switch\<close> inside the \<open>try\<close>: the executor of the action's type is awaited; a
  type that matches no case runs nothing and falls out of the \<open>switch\<close> without
  throwing.
\<close>

definition run_executor ::
  "('p, 'w) executors \<Rightarrow> 'p OfflineAction \<Rightarrow> 'w \<Rightarrow> exec_result \<times> 'w" where
  "run_executor ex a w =
     (case action_type a of
        SUBMIT_ACTIVITY \<Rightarrow> executeSubmitActivity ex (payload a) w
      | GRADE_ACTIVITY \<Rightarrow> executeGradeActivity ex (payload a) w
      | POST_NOTICE \<Rightarrow> executePostNotice ex (payload a) w
      | OTHER_TYPE t \<Rightarrow> (Resolved, w))"

text \<open>The three locals of \<open>syncNow\<close> that the loop fills.\<close>

record 'p tally =
  successCount :: nat
  remainingQueue :: "'p OfflineAction list"
  newFailed :: "'p OfflineAction list"

definition tally0 :: "'p tally" where
  "tally0 = \<lparr>successCount = 0, remainingQueue = [], newFailed = []\<rparr>"

definition currentRetries :: "'p OfflineAction \<Rightarrow> nat" where
  "currentRetries a = (case retryCount a of None \<Rightarrow> 0 | Some n \<Rightarrow> n)"

text \<open>
  What one iteration does with the accumulators: \<open>successCount++\<close> after the
  \<open>switch\<close>, or the \<open>catch\<close> block.
\<close>

definition settle :: "'p OfflineAction \<Rightarrow> exec_result \<Rightarrow> 'p tally \<Rightarrow> 'p tally" where
  "settle a r t =
     (case r of
        Resolved \<Rightarrow> t\<lparr>successCount := successCount t + 1\<rparr>
      | Rejected msg \<Rightarrow>
          if currentRetries a < MAX_RETRIES
          then t\<lparr>remainingQueue := remainingQueue t @
                   [a\<lparr>retryCount := Some (currentRetries a + 1), lastError := Some msg\<rparr>]\<rparr>
          else t\<lparr>newFailed := newFailed t @ [a\<lparr>lastError := Some msg\<rparr>]\<rparr>)"

text \<open>
  The \<open>for\<close> loop over \<open>storedQueue.entries()\<close>: \<open>tot\<close> is
  \<open>storedQueue.length\<close>, \<open>i\<close> the index of the head of the rest of the batch. Each
  executor is awaited before the next iteration, so it starts in the world the one before
  left.
\<close>

fun syncNow_loop ::
  "('p, 'w) executors \<Rightarrow> nat \<Rightarrow> nat \<Rightarrow> 'p OfflineAction list
     \<Rightarrow> 'p tally \<times> 'p engine \<times> 'w \<Rightarrow> 'p tally \<times> 'p engine \<times> 'w" where
  "syncNow_loop ex tot i [] s = s"
| "syncNow_loop ex tot i (a # rest) (t, st, w) =
     (case run_executor ex a w of
        (r, w') \<Rightarrow>
          syncNow_loop ex tot (Suc i) rest
            (settle a r t, st\<lparr>syncProgress := Some \<lparr>current = i + 1, total = tot\<rparr>\<rparr>, w'))"

text \<open>
  The start of \<open>syncNow\<close>, up to the loop: the batch is what \<open>get(QUEUE_KEY)\<close>
  returns. \<open>Inl\<close> is an early end of the call (the rejection of \<open>get\<close>, or the
  \<open>return\<close> on a missing or empty stored queue), \<open>Inr\<close> the batch to process.
\<close>

definition syncNow_begin ::
  "idb_faults \<Rightarrow> 'p engine \<Rightarrow> ((error + unit) + 'p OfflineAction list) \<times> 'p engine" where
  "syncNow_begin f st =
     (if get_throws f QUEUE_KEY then (Inl (Inl StorageError), st)
      else case idb st QUEUE_KEY of
             None \<Rightarrow> (Inl (Inr ()), st)
           | Some storedQueue \<Rightarrow>
               if storedQueue = [] then (Inl (Inr ()), st)
               else (Inr storedQueue,
                     st\<lparr>isSyncing := True,
                        syncProgress := Some \<lparr>current = 0, total = length storedQueue\<rparr>\<rparr>))"

text \<open>
  The last lines of \<open>syncNow\<close>: the flag and the progress are cleared, and the
  success toast is shown when something succeeded.
\<close>

definition syncNow_finish :: "'p tally \<Rightarrow> 'p engine \<Rightarrow> (error + unit) \<times> 'p engine" where
  "syncNow_finish t st =
     (let st1 = st\<lparr>isSyncing := False, syncProgress := None\<rparr>
      in (Inr (), if successCount t > 0
                  then st1\<lparr>toasts := toasts st1 @ [ToastSuccess (successCount t)]\<rparr>
                  else st1))"

text \<open>
  The end of \<open>syncNow\<close>, after the loop (the block under \<open>// Update Queues\<close>).
  \<open>cFailed\<close> is the value of \<open>failedQueue\<close> in the closure of this
  \<open>syncNow\<close>: the function is created anew at every render and reads the
  \<open>failedQueue\<close> of the render that created it. Each state setter runs before the
  awaited \<open>set\<close> that follows it.
\<close>

definition syncNow_commit ::
  "idb_faults \<Rightarrow> 'p OfflineAction list \<Rightarrow> 'p tally \<Rightarrow> 'p engine
     \<Rightarrow> (error + unit) \<times> 'p engine" where
  "syncNow_commit f cFailed t st =
     (let st1 = st\<lparr>queue := remainingQueue t\<rparr>
      in if set_throws f QUEUE_KEY then (Inl StorageError, st1)
         else
           let st2 = st1\<lparr>idb := (idb st1)(QUEUE_KEY \<mapsto> remainingQueue t)\<rparr>
           in if newFailed t \<noteq> []
              then
                let updatedFailedQueue = cFailed @ newFailed t;
                    st3 = st2\<lparr>failedQueue := updatedFailedQueue\<rparr>
                in if set_throws f FAILED_QUEUE_KEY then (Inl StorageError, st3)
                   else syncNow_finish t
                          (st3\<lparr>idb := (idb st3)(FAILED_QUEUE_KEY \<mapsto> updatedFailedQueue),
                               toasts := toasts st3 @ [ToastError (length (newFailed t))]\<rparr>)
              else syncNow_finish t st2)"

text \<open>One call of \<open>syncNow\<close> that runs to its end with nothing in between.\<close>

definition syncNow ::
  "('p, 'w) executors \<Rightarrow> idb_faults \<Rightarrow> 'p OfflineAction list \<Rightarrow> 'p engine \<times> 'w
     \<Rightarrow> (error + unit) \<times> 'p engine \<times> 'w" where
  "syncNow ex f cFailed s =
     (case s of
        (st, w) \<Rightarrow>
          (case syncNow_begin f st of
             (Inl res, st0) \<Rightarrow> (res, st0, w)
           | (Inr storedQueue, st1) \<Rightarrow>
               (case syncNow_loop ex (length storedQueue) 0 storedQueue (tally0, st1, w) of
                  (t, st2, w2) \<Rightarrow>
                    (case syncNow_commit f cFailed t st2 of
                       (res, st3) \<Rightarrow> (res, st3, w2)))))"

text \<open>
  The state after a call of the \<open>syncNow\<close> of the latest render, whose closure holds
  the current \<open>failedQueue\<close>.
\<close>

definition drain ::
  "('p, 'w) executors \<Rightarrow> idb_faults \<Rightarrow> 'p engine \<times> 'w \<Rightarrow> 'p engine \<times> 'w" where
  "drain ex f s = snd (syncNow ex f (failedQueue (fst s)) s)"

text \<open>
  A call of \<open>syncNow\<close> during which other operations of the engine complete.
  \<open>syncNow\<close> yields at every \<open>await\<close>; between \<open>get\<close> and the block under
  \<open>// Update Queues\<close> it neither reads the queues nor the store, so whatever the
  other operations do in that window is one change \<open>other\<close> of the engine state
  between the snapshot and the end of the loop.
\<close>

definition syncNow_interleaved ::
  "('p, 'w) executors \<Rightarrow> idb_faults \<Rightarrow> 'p OfflineAction list
     \<Rightarrow> ('p engine \<Rightarrow> 'p engine) \<Rightarrow> 'p engine \<times> 'w
     \<Rightarrow> (error + unit) \<times> 'p engine \<times> 'w" where
  "syncNow_interleaved ex f cFailed other s =
     (case s of
        (st, w) \<Rightarrow>
          (case syncNow_begin f st of
             (Inl res, st0) \<Rightarrow> (res, st0, w)
           | (Inr storedQueue, st1) \<Rightarrow>
               (case syncNow_loop ex (length storedQueue) 0 storedQueue
                       (tally0, other st1, w) of
                  (t, st2, w2) \<Rightarrow>
                    (case syncNow_commit f cFailed t st2 of
                       (res, st3) \<Rightarrow> (res, st3, w2)))))"

text \<open>
  After the loop \<open>syncNow\<close> yields twice more: at \<open>await set(QUEUE_KEY, ...)\<close>
  and, when an action was dead-lettered, at \<open>await set(FAILED_QUEUE_KEY, ...)\<close>. Each
  \<open>set\<close> is issued before the yield, so what other operations do while it is awaited
  comes after the write: \<open>late1\<close> is their change of the engine state during the first
  of these awaits and \<open>late2\<close> during the second. \<open>syncNow\<close> writes the pending queue
  only once, before the first of them.
\<close>

definition syncNow_commit_windows ::
  "idb_faults \<Rightarrow> 'p OfflineAction list \<Rightarrow> ('p engine \<Rightarrow> 'p engine)
     \<Rightarrow> ('p engine \<Rightarrow> 'p engine) \<Rightarrow> 'p tally \<Rightarrow> 'p engine
     \<Rightarrow> (error + unit) \<times> 'p engine" where
  "syncNow_commit_windows f cFailed late1 late2 t st =
     (let st1 = st\<lparr>queue := remainingQueue t\<rparr>
      in if set_throws f QUEUE_KEY then (Inl StorageError, late1 st1)
         else
           let st2 = late1 (st1\<lparr>idb := (idb st1)(QUEUE_KEY \<mapsto> remainingQueue t)\<rparr>)
           in if newFailed t \<noteq> []
              then
                let updatedFailedQueue = cFailed @ newFailed t;
                    st3 = st2\<lparr>failedQueue := updatedFailedQueue\<rparr>
                in if set_throws f FAILED_QUEUE_KEY then (Inl StorageError, late2 st3)
                   else
                     let st4 = late2
                           (st3\<lparr>idb := (idb st3)(FAILED_QUEUE_KEY \<mapsto> updatedFailedQueue)\<rparr>)
                     in syncNow_finish t
                          (st4\<lparr>toasts := toasts st4 @ [ToastError (length (newFailed t))]\<rparr>)
              else syncNow_finish t st2)"

text \<open>
  A call of \<open>syncNow\<close> with the three windows in which other operations can run:
  \<open>early\<close> between the snapshot and the end of the loop, \<open>late1\<close> and \<open>late2\<close>
  during the two awaited writes. \<open>id\<close> in a window means that nothing else runs
  there.
\<close>

definition syncNow_windows ::
  "('p, 'w) executors \<Rightarrow> idb_faults \<Rightarrow> 'p OfflineAction list
     \<Rightarrow> ('p engine \<Rightarrow> 'p engine) \<Rightarrow> ('p engine \<Rightarrow> 'p engine) \<Rightarrow> ('p engine \<Rightarrow> 'p engine)
     \<Rightarrow> 'p engine \<times> 'w \<Rightarrow> (error + unit) \<times> 'p engine \<times> 'w" where
  "syncNow_windows ex f cFailed early late1 late2 s =
     (case s of
        (st, w) \<Rightarrow>
          (case syncNow_begin f st of
             (Inl res, st0) \<Rightarrow> (res, st0, w)
           | (Inr storedQueue, st1) \<Rightarrow>
               (case syncNow_loop ex (length storedQueue) 0 storedQueue
                       (tally0, early st1, w) of
                  (t, st2, w2) \<Rightarrow>
                    (case syncNow_commit_windows f cFailed late1 late2 t st2 of
                       (res, st3) \<Rightarrow> (res, st3, w2)))))"

section \<open>retryFailedAction and discardFailedAction\<close>

text \<open>
  The third component is the call \<open>syncNow()\<close> that ends \<open>retryFailedAction\<close>: it
  is not awaited, and it is the \<open>syncNow\<close> of the render that created this
  \<open>retryFailedAction\<close>, so its closure holds the \<open>failedQueue\<close> from before the
  retry. \<open>Some cFailed\<close> is that call with its captured \<open>failedQueue\<close>, \<open>None\<close>
  is no call.
\<close>

definition retryFailedAction ::
  "idb_faults \<Rightarrow> string \<Rightarrow> 'p engine
     \<Rightarrow> (error + unit) \<times> 'p engine \<times> 'p OfflineAction list option" where
  "retryFailedAction f actionId st =
     (case find (\<lambda>a. action_id a = actionId) (failedQueue st) of
        None \<Rightarrow> (Inr (), st, None)
      | Some actionToRetry \<Rightarrow>
          let resetAction = actionToRetry\<lparr>retryCount := Some 0, lastError := None\<rparr>;
              newQueue = queue st @ [resetAction];
              newFailedQueue = filter (\<lambda>a. action_id a \<noteq> actionId) (failedQueue st);
              st1 = st\<lparr>queue := newQueue, failedQueue := newFailedQueue\<rparr>
          in if set_throws f QUEUE_KEY then (Inl StorageError, st1, None)
             else
               let st2 = st1\<lparr>idb := (idb st1)(QUEUE_KEY \<mapsto> newQueue)\<rparr>
               in if set_throws f FAILED_QUEUE_KEY then (Inl StorageError, st2, None)
                  else (Inr (),
                        st2\<lparr>idb := (idb st2)(FAILED_QUEUE_KEY \<mapsto> newFailedQueue)\<rparr>,
                        Some (failedQueue st)))"

text \<open>
  \<open>retryFailedAction\<close> followed by the run of the \<open>syncNow\<close> it started, with
  nothing else in between.
\<close>

definition retryFailedAction_sync ::
  "('p, 'w) executors \<Rightarrow> idb_faults \<Rightarrow> string \<Rightarrow> 'p engine \<times> 'w \<Rightarrow> 'p engine \<times> 'w" where
  "retryFailedAction_sync ex f actionId s =
     (case s of
        (st, w) \<Rightarrow>
          (case retryFailedAction f actionId st of
             (res, st1, None) \<Rightarrow> (st1, w)
           | (res, st1, Some cFailed) \<Rightarrow> snd (syncNow ex f cFailed (st1, w))))"

definition discardFailedAction ::
  "idb_faults \<Rightarrow> string \<Rightarrow> 'p engine \<Rightarrow> (error + unit) \<times> 'p engine" where
  "discardFailedAction f actionId st =
     (let newFailedQueue = filter (\<lambda>a. action_id a \<noteq> actionId) (failedQueue st);
          st1 = st\<lparr>failedQueue := newFailedQueue\<rparr>
      in if set_throws f FAILED_QUEUE_KEY then (Inl StorageError, st1)
         else (Inr (), st1\<lparr>idb := (idb st1)(FAILED_QUEUE_KEY \<mapsto> newFailedQueue)\<rparr>))"

section \<open>Notions used in the statements\<close>

text \<open>The entries of a queue that carry a given id, in queue order.\<close>

definition with_id :: "string \<Rightarrow> 'p OfflineAction list \<Rightarrow> 'p OfflineAction list" where
  "with_id x xs = filter (\<lambda>a. action_id a = x) xs"

text \<open>
  The executor that \<open>syncNow\<close> runs for this action throws whenever it is called,
  whatever the state of the world.
\<close>

definition always_rejects :: "('p, 'w) executors \<Rightarrow> 'p OfflineAction \<Rightarrow> bool" where
  "always_rejects ex a = (\<forall>w. \<exists>msg. fst (run_executor ex a w) = Rejected msg)"

text \<open>
  No id occurs twice in the pending queue and the dead-letter queue taken together.
\<close>

definition queues_distinct :: "'p engine \<Rightarrow> bool" where
  "queues_distinct st = distinct (map action_id (queue st @ failedQueue st))"

text \<open>The action's type is one of the three that the \<open>switch\<close> has a case for.\<close>

definition has_executor :: "'p OfflineAction \<Rightarrow> bool" where
  "has_executor a = (case action_type a of OTHER_TYPE t \<Rightarrow> False | _ \<Rightarrow> True)"

text \<open>
  Executors that record every call in the world, which is the list of the calls made so
  far. Whether a call resolves or throws is left open: \<open>outcome\<close> decides it from
  the type, the payload and the calls made before.
\<close>

definition recording ::
  "(OfflineActionType \<Rightarrow> 'p \<Rightarrow> (OfflineActionType \<times> 'p) list \<Rightarrow> exec_result)
     \<Rightarrow> ('p, (OfflineActionType \<times> 'p) list) executors" where
  "recording outcome =
     \<lparr>executeSubmitActivity =
        (\<lambda>p calls. (outcome SUBMIT_ACTIVITY p calls, calls @ [(SUBMIT_ACTIVITY, p)])),
      executeGradeActivity =
        (\<lambda>p calls. (outcome GRADE_ACTIVITY p calls, calls @ [(GRADE_ACTIVITY, p)])),
      executePostNotice =
        (\<lambda>p calls. (outcome POST_NOTICE p calls, calls @ [(POST_NOTICE, p)]))\<rparr>"

section \<open>Concrete inputs\<close>

text \<open>
  A store that never rejects, executors of which the one for \<open>GRADE_ACTIVITY\<close>
  always throws while the other two resolve and record the payload in the world,
  actions as \<open>addOfflineAction\<close> builds them (\<open>act_X\<close> with a type that has no
  executor), a store that rejects the writes of one key, the engine of the first render
  over an empty store, and an engine whose stored queues mirror its in-memory queues.
\<close>

definition no_faults :: idb_faults where
  "no_faults = \<lparr>get_throws = (\<lambda>k. False), set_throws = (\<lambda>k. False)\<rparr>"

definition ex_demo :: "(string, string list) executors" where
  "ex_demo =
     \<lparr>executeSubmitActivity = (\<lambda>p w. (Resolved, w @ [p])),
      executeGradeActivity = (\<lambda>p w. (Rejected ''denied'', w)),
      executePostNotice = (\<lambda>p w. (Resolved, w @ [p]))\<rparr>"

definition act_A :: "string OfflineAction" where
  "act_A = \<lparr>action_id = ''id-a'', action_type = SUBMIT_ACTIVITY, payload = ''pa'',
            timestamp = 1, retryCount = Some 0, lastError = None\<rparr>"

definition act_B :: "string OfflineAction" where
  "act_B = \<lparr>action_id = ''id-b'', action_type = GRADE_ACTIVITY, payload = ''pb'',
            timestamp = 2, retryCount = Some 0, lastError = None\<rparr>"

definition act_C :: "string OfflineAction" where
  "act_C = \<lparr>action_id = ''id-c'', action_type = POST_NOTICE, payload = ''pc'',
            timestamp = 3, retryCount = Some 0, lastError = None\<rparr>"

definition act_D :: "string OfflineAction" where
  "act_D = \<lparr>action_id = ''id-d'', action_type = GRADE_ACTIVITY, payload = ''pd'',
            timestamp = 0, retryCount = Some 0, lastError = None\<rparr>"

definition act_X :: "string OfflineAction" where
  "act_X = \<lparr>action_id = ''id-x'', action_type = OTHER_TYPE ''DELETE_NOTICE'',
            payload = ''px'', timestamp = 4, retryCount = Some 0, lastError = None\<rparr>"

definition faults_on :: "string \<Rightarrow> idb_faults" where
  "faults_on k = \<lparr>get_throws = (\<lambda>x. False), set_throws = (\<lambda>x. x = k)\<rparr>"

definition engine_init :: "'p engine" where
  "engine_init =
     \<lparr>queue = [], failedQueue = [], isSyncing = False, syncProgress = None,
      idb = Map.empty, toasts = []\<rparr>"

definition engine_of ::
  "'p OfflineAction list \<Rightarrow> 'p OfflineAction list \<Rightarrow> 'p engine" where
  "engine_of q fq =
     \<lparr>queue = q, failedQueue = fq, isSyncing = False, syncProgress = None,
      idb = [QUEUE_KEY \<mapsto> q, FAILED_QUEUE_KEY \<mapsto> fq], toasts = []\<rparr>"

text \<open>Recorded calls all resolve.\<close>

definition all_resolve ::
  "OfflineActionType \<Rightarrow> string \<Rightarrow> (OfflineActionType \<times> string) list \<Rightarrow> exec_result" where
  "all_resolve ty p calls = Resolved"

text \<open>
  The enqueue of \<open>act_C\<close> through the callback of the latest render, as a change of
  the engine state.
\<close>

definition enqueue_C :: "string engine \<Rightarrow> string engine" where
  "enqueue_C s = snd (addOfflineAction_latest no_faults ''id-c'' 3 POST_NOTICE ''pc'' s)"


text \<open>
  A run of the engine from its first render, every call made through the functions of
  the latest render: \<open>act_D\<close> is enqueued and fails in a drain, \<open>act_B\<close> is
  enqueued, and three more drains fail. \<open>act_D\<close> has then
  failed four times and is in the dead-letter queue; \<open>act_B\<close> has failed three times
  and is pending.
\<close>

definition retry_scenario :: "string engine \<times> string list" where
  "retry_scenario =
     (drain ex_demo no_faults ^^ 3)
       (snd (addOfflineAction_latest no_faults ''id-b'' 2 GRADE_ACTIVITY ''pb''
          (fst (drain ex_demo no_faults
             (snd (addOfflineAction_latest no_faults ''id-d'' 0 GRADE_ACTIVITY ''pd''
                engine_init),
              [])))), [])"

section \<open>Basic facts\<close>

lemma keys_distinct [simp]:
  "QUEUE_KEY \<noteq> FAILED_QUEUE_KEY" "FAILED_QUEUE_KEY \<noteq> QUEUE_KEY"
  by (simp_all add: QUEUE_KEY_def FAILED_QUEUE_KEY_def)

lemmas drain_simps = drain_def syncNow_def syncNow_begin_def syncNow_commit_def
  syncNow_finish_def run_executor_def settle_def currentRetries_def MAX_RETRIES_def tally0_def
  Let_def

subsection \<open>The loop\<close>

lemma loop_engine:
  "fst (snd (syncNow_loop ex tot i xs (t, st, w))) =
     (if xs = [] then st
      else st\<lparr>syncProgress := Some \<lparr>current = i + length xs, total = tot\<rparr>\<rparr>)"
proof (induction xs arbitrary: i t st w)
  case Nil
  show ?case by simp
next
  case (Cons a rest)
  obtain r w' where rw: "run_executor ex a w = (r, w')" by (cases "run_executor ex a w")
  show ?case using Cons.IH [of "Suc i" "settle a r t" _ w'] rw by simp
qed

lemma loop_world:
  "snd (snd (syncNow_loop ex tot i xs (t, st, w))) =
     foldl (\<lambda>v a. snd (run_executor ex a v)) w xs"
proof (induction xs arbitrary: i t st w)
  case Nil
  show ?case by simp
next
  case (Cons a rest)
  obtain r w' where rw: "run_executor ex a w = (r, w')" by (cases "run_executor ex a w")
  show ?case using Cons.IH [of "Suc i" "settle a r t" _ w'] rw by simp
qed

lemma loop_tally_indep:
  "fst (syncNow_loop ex tot i xs (t, st, w)) = fst (syncNow_loop ex tot' i' xs (t, st', w))"
proof (induction xs arbitrary: i i' t st st' w)
  case Nil
  show ?case by simp
next
  case (Cons a rest)
  obtain r w' where rw: "run_executor ex a w = (r, w')" by (cases "run_executor ex a w")
  show ?case using Cons.IH [of "Suc i" "settle a r t" _ w' "Suc i'"] rw by simp
qed

lemma settle_other_id:
  assumes "action_id a \<noteq> x"
  shows "with_id x (remainingQueue (settle a r t)) = with_id x (remainingQueue t)"
    and "with_id x (newFailed (settle a r t)) = with_id x (newFailed t)"
  using assms by (auto simp: settle_def with_id_def split: exec_result.splits)

lemma loop_other_ids:
  assumes "\<forall>b\<in>set xs. action_id b \<noteq> x"
  shows "with_id x (remainingQueue (fst (syncNow_loop ex tot i xs (t, st, w)))) =
           with_id x (remainingQueue t) \<and>
         with_id x (newFailed (fst (syncNow_loop ex tot i xs (t, st, w)))) =
           with_id x (newFailed t)"
  using assms
proof (induction xs arbitrary: i t st w)
  case Nil
  show ?case by simp
next
  case (Cons a rest)
  obtain r w' where rw: "run_executor ex a w = (r, w')" by (cases "run_executor ex a w")
  have ne: "action_id a \<noteq> x" and rest: "\<forall>b\<in>set rest. action_id b \<noteq> x"
    using Cons.prems by simp_all
  show ?case
    using Cons.IH [OF rest, of "Suc i" "settle a r t" _ w'] rw settle_other_id [OF ne]
    by simp
qed

lemma loop_one_id:
  assumes "with_id x xs = [b]" and "always_rejects ex b"
  shows "\<exists>msg. 
         (currentRetries b < MAX_RETRIES \<longrightarrow>
            with_id x (remainingQueue (fst (syncNow_loop ex tot i xs (t, st, w)))) =
              with_id x (remainingQueue t) @
                [b\<lparr>retryCount := Some (currentRetries b + 1), lastError := Some msg\<rparr>] \<and>
            with_id x (newFailed (fst (syncNow_loop ex tot i xs (t, st, w)))) =
              with_id x (newFailed t)) \<and>
         (\<not> currentRetries b < MAX_RETRIES \<longrightarrow>
            with_id x (remainingQueue (fst (syncNow_loop ex tot i xs (t, st, w)))) =
              with_id x (remainingQueue t) \<and>
            with_id x (newFailed (fst (syncNow_loop ex tot i xs (t, st, w)))) =
              with_id x (newFailed t) @ [b\<lparr>lastError := Some msg\<rparr>])"
  using assms(1)
proof (induction xs arbitrary: i t st w)
  case Nil
  then show ?case by (simp add: with_id_def)
next
  case (Cons a rest)
  obtain r w' where rw: "run_executor ex a w = (r, w')" by (cases "run_executor ex a w")
  show ?case
  proof (cases "action_id a = x")
    case True
    with Cons.prems have ab: "a = b" and none: "with_id x rest = []"
      by (simp_all add: with_id_def)
    from none have rest: "\<forall>c\<in>set rest. action_id c \<noteq> x"
      by (simp add: with_id_def filter_empty_conv)
    from assms(2) ab rw obtain msg where r: "r = Rejected msg"
      unfolding always_rejects_def by (metis fst_conv)
    have idb: "action_id b = x" using True ab by simp
    define t1 where "t1 = settle a r t"
    have step: "syncNow_loop ex tot i (a # rest) (t, st, w) =
        syncNow_loop ex tot (Suc i) rest
          (t1, st\<lparr>syncProgress := Some \<lparr>current = i + 1, total = tot\<rparr>\<rparr>, w')"
      using rw by (simp add: t1_def)
    have lo: "currentRetries b < MAX_RETRIES \<Longrightarrow>
        with_id x (remainingQueue t1) = with_id x (remainingQueue t) @
          [b\<lparr>retryCount := Some (currentRetries b + 1), lastError := Some msg\<rparr>] \<and>
        with_id x (newFailed t1) = with_id x (newFailed t)"
      using r ab idb by (simp add: t1_def settle_def with_id_def)
    have hi: "\<not> currentRetries b < MAX_RETRIES \<Longrightarrow>
        with_id x (remainingQueue t1) = with_id x (remainingQueue t) \<and>
        with_id x (newFailed t1) = with_id x (newFailed t) @ [b\<lparr>lastError := Some msg\<rparr>]"
      using r ab idb by (simp add: t1_def settle_def with_id_def)
    show ?thesis
      unfolding step
      using loop_other_ids [OF rest, of ex tot "Suc i" t1 _ w'] lo hi
      by (intro exI [of _ msg]) simp
  next
    case False
    with Cons.prems have one: "with_id x rest = [b]" by (simp add: with_id_def)
    show ?thesis
      using Cons.IH [OF one, of "Suc i" "settle a r t" _ w'] rw settle_other_id [OF False]
      by simp
  qed
qed

subsection \<open>A whole call of syncNow\<close>

lemma syncNow_nonempty:
  assumes "\<not> get_throws f QUEUE_KEY" and "idb st QUEUE_KEY = Some q" and "q \<noteq> []"
  shows "syncNow ex f cFailed (st, w) =
     (fst (syncNow_commit f cFailed
             (fst (syncNow_loop ex (length q) 0 q (tally0, st, w)))
             (st\<lparr>isSyncing := True,
                 syncProgress := Some \<lparr>current = length q, total = length q\<rparr>\<rparr>)),
      snd (syncNow_commit f cFailed
             (fst (syncNow_loop ex (length q) 0 q (tally0, st, w)))
             (st\<lparr>isSyncing := True,
                 syncProgress := Some \<lparr>current = length q, total = length q\<rparr>\<rparr>)),
      foldl (\<lambda>v a. snd (run_executor ex a v)) w q)"
proof -
  let ?st1 = "st\<lparr>isSyncing := True,
                 syncProgress := Some \<lparr>current = 0, total = length q\<rparr>\<rparr>"
  obtain t st2 w2 where run: "syncNow_loop ex (length q) 0 q (tally0, ?st1, w) = (t, st2, w2)"
    by (cases "syncNow_loop ex (length q) 0 q (tally0, ?st1, w)")
  have t: "t = fst (syncNow_loop ex (length q) 0 q (tally0, st, w))"
    using loop_tally_indep [of ex "length q" 0 q tally0 ?st1 w "length q" 0 st] run by simp
  have st2: "st2 = st\<lparr>isSyncing := True,
                 syncProgress := Some \<lparr>current = length q, total = length q\<rparr>\<rparr>"
    using loop_engine [of ex "length q" 0 q tally0 ?st1 w] run assms(3) by simp
  have w2: "w2 = foldl (\<lambda>v a. snd (run_executor ex a v)) w q"
    using loop_world [of ex "length q" 0 q tally0 ?st1 w] run by simp
  have "syncNow ex f cFailed (st, w) =
      (fst (syncNow_commit f cFailed t st2), snd (syncNow_commit f cFailed t st2), w2)"
    using assms run by (simp add: syncNow_def syncNow_begin_def split: prod.splits)
  then show ?thesis by (simp only: t st2 w2)
qed

lemma commit_ok:
  assumes "\<not> set_throws f QUEUE_KEY" and "\<not> set_throws f FAILED_QUEUE_KEY"
  shows "fst (syncNow_commit f cFailed t st) = Inr ()"
    and "queue (snd (syncNow_commit f cFailed t st)) = remainingQueue t"
    and "failedQueue (snd (syncNow_commit f cFailed t st)) =
           (if newFailed t = [] then failedQueue st else cFailed @ newFailed t)"
    and "idb (snd (syncNow_commit f cFailed t st)) QUEUE_KEY = Some (remainingQueue t)"
    and "idb (snd (syncNow_commit f cFailed t st)) FAILED_QUEUE_KEY =
           (if newFailed t = [] then idb st FAILED_QUEUE_KEY
            else Some (cFailed @ newFailed t))"
    and "\<not> isSyncing (snd (syncNow_commit f cFailed t st))"
    and "syncProgress (snd (syncNow_commit f cFailed t st)) = None"
    and "toasts (snd (syncNow_commit f cFailed t st)) =
           toasts st @ (if newFailed t = [] then [] else [ToastError (length (newFailed t))])
             @ (if successCount t > 0 then [ToastSuccess (successCount t)] else [])"
  using assms by (simp_all add: syncNow_commit_def syncNow_finish_def Let_def)

lemma always_rejects_cong:
  assumes "action_type a = action_type b" and "payload a = payload b"
  shows "always_rejects ex a = always_rejects ex b"
  using assms by (cases "action_type b") (simp_all add: always_rejects_def run_executor_def)

lemma drain_rejected_step:
  assumes nf: "\<not> get_throws f QUEUE_KEY" "\<not> set_throws f QUEUE_KEY"
      "\<not> set_throws f FAILED_QUEUE_KEY"
    and coh: "idb st QUEUE_KEY = Some (queue st)"
    and one: "with_id x (queue st) = [b]"
    and rej: "always_rejects ex b"
  shows "idb (fst (drain ex f (st, w))) QUEUE_KEY = Some (queue (fst (drain ex f (st, w)))) \<and>
    (\<exists>msg.
      (currentRetries b < MAX_RETRIES \<longrightarrow>
         with_id x (queue (fst (drain ex f (st, w)))) =
           [b\<lparr>retryCount := Some (currentRetries b + 1), lastError := Some msg\<rparr>] \<and>
         with_id x (failedQueue (fst (drain ex f (st, w)))) = with_id x (failedQueue st)) \<and>
      (\<not> currentRetries b < MAX_RETRIES \<longrightarrow>
         with_id x (queue (fst (drain ex f (st, w)))) = [] \<and>
         with_id x (failedQueue (fst (drain ex f (st, w)))) =
           with_id x (failedQueue st) @ [b\<lparr>lastError := Some msg\<rparr>]))"
proof -
  let ?q = "queue st"
  let ?t = "fst (syncNow_loop ex (length ?q) 0 ?q (tally0, st, w))"
  let ?st2 = "st\<lparr>isSyncing := True,
                 syncProgress := Some \<lparr>current = length ?q, total = length ?q\<rparr>\<rparr>"
  have ne: "?q \<noteq> []" using one by (auto simp: with_id_def)
  have d: "fst (drain ex f (st, w)) = snd (syncNow_commit f (failedQueue st) ?t ?st2)"
    by (simp add: drain_def syncNow_nonempty [OF nf(1) coh ne])
  have fq: "failedQueue (fst (drain ex f (st, w))) = failedQueue st @ newFailed ?t"
    unfolding d by (simp add: commit_ok(3) [OF nf(2,3)])
  have q: "queue (fst (drain ex f (st, w))) = remainingQueue ?t"
    unfolding d by (simp add: commit_ok(2) [OF nf(2,3)])
  have s: "idb (fst (drain ex f (st, w))) QUEUE_KEY = Some (remainingQueue ?t)"
    unfolding d by (simp add: commit_ok(4) [OF nf(2,3)])
  from loop_one_id [OF one rej, of "length ?q" 0 tally0 st w]
  obtain msg where
    lo: "currentRetries b < MAX_RETRIES \<Longrightarrow>
       with_id x (remainingQueue ?t) =
         [b\<lparr>retryCount := Some (currentRetries b + 1), lastError := Some msg\<rparr>] \<and>
       with_id x (newFailed ?t) = []"
    and hi: "\<not> currentRetries b < MAX_RETRIES \<Longrightarrow>
       with_id x (remainingQueue ?t) = [] \<and>
       with_id x (newFailed ?t) = [b\<lparr>lastError := Some msg\<rparr>]"
    by (auto simp: tally0_def with_id_def)
  have app: "with_id x (failedQueue st @ newFailed ?t) =
      with_id x (failedQueue st) @ with_id x (newFailed ?t)"
    by (simp add: with_id_def)
  show ?thesis
    unfolding fq q s app using lo hi by (intro conjI exI [of _ msg]) simp_all
qed

lemma drains_rejected:
  assumes nf: "\<not> get_throws f QUEUE_KEY" "\<not> set_throws f QUEUE_KEY"
      "\<not> set_throws f FAILED_QUEUE_KEY"
    and coh: "idb st QUEUE_KEY = Some (queue st)"
    and one: "with_id x (queue st) = [a]"
    and none: "with_id x (failedQueue st) = []"
    and zero: "retryCount a = Some 0"
    and rej: "always_rejects ex a"
    and n: "n \<le> MAX_RETRIES"
  shows "idb (fst ((drain ex f ^^ n) (st, w))) QUEUE_KEY =
           Some (queue (fst ((drain ex f ^^ n) (st, w)))) \<and>
         (\<exists>e. with_id x (queue (fst ((drain ex f ^^ n) (st, w)))) =
                 [a\<lparr>retryCount := Some n, lastError := e\<rparr>] \<and> (0 < n \<longrightarrow> e \<noteq> None)) \<and>
         with_id x (failedQueue (fst ((drain ex f ^^ n) (st, w)))) = []"
  using n
proof (induction n)
  case 0
  have "a\<lparr>retryCount := Some 0, lastError := lastError a\<rparr> = a" using zero by simp
  then show ?case using coh one none by (auto intro: exI [of _ "lastError a"])
next
  case (Suc n)
  obtain st' w' where s: "(drain ex f ^^ n) (st, w) = (st', w')"
    by (cases "(drain ex f ^^ n) (st, w)")
  from Suc obtain e where
    coh': "idb st' QUEUE_KEY = Some (queue st')"
    and one': "with_id x (queue st') = [a\<lparr>retryCount := Some n, lastError := e\<rparr>]"
    and none': "with_id x (failedQueue st') = []"
    using s by auto
  let ?b = "a\<lparr>retryCount := Some n, lastError := e\<rparr>"
  have rej': "always_rejects ex ?b"
    using rej always_rejects_cong [of ?b a ex] by simp
  have cr: "currentRetries ?b = n" by (simp add: currentRetries_def)
  have lt: "currentRetries ?b < MAX_RETRIES" using Suc.prems cr by simp
  from drain_rejected_step [OF nf coh' one' rej', of w'] lt cr none'
  show ?case by (auto simp: s)
qed

subsection \<open>Further facts about the loop and the interleaved call\<close>

lemma settle_successCount: "successCount t \<le> successCount (settle a r t)"
  by (simp add: settle_def split: exec_result.splits)

lemma loop_successCount_mono:
  "successCount t \<le> successCount (fst (syncNow_loop ex tot i xs (t, st, w)))"
proof (induction xs arbitrary: i t st w)
  case Nil
  show ?case by simp
next
  case (Cons a rest)
  obtain r w' where rw: "run_executor ex a w = (r, w')" by (cases "run_executor ex a w")
  have "successCount t \<le> successCount (settle a r t)" by (rule settle_successCount)
  also have "\<dots> \<le> successCount (fst (syncNow_loop ex tot (Suc i) rest
      (settle a r t, st\<lparr>syncProgress := Some \<lparr>current = i + 1, total = tot\<rparr>\<rparr>, w')))"
    by (rule Cons.IH)
  finally show ?case using rw by simp
qed

lemma loop_one_unmatched:
  assumes "with_id x xs = [b]" and "action_type b = OTHER_TYPE tag"
  shows "with_id x (remainingQueue (fst (syncNow_loop ex tot i xs (t, st, w)))) =
           with_id x (remainingQueue t) \<and>
         with_id x (newFailed (fst (syncNow_loop ex tot i xs (t, st, w)))) =
           with_id x (newFailed t) \<and>
         successCount t < successCount (fst (syncNow_loop ex tot i xs (t, st, w)))"
  using assms(1)
proof (induction xs arbitrary: i t st w)
  case Nil
  then show ?case by (simp add: with_id_def)
next
  case (Cons a rest)
  obtain r w' where rw: "run_executor ex a w = (r, w')" by (cases "run_executor ex a w")
  define t1 where "t1 = settle a r t"
  have step: "syncNow_loop ex tot i (a # rest) (t, st, w) =
      syncNow_loop ex tot (Suc i) rest
        (t1, st\<lparr>syncProgress := Some \<lparr>current = i + 1, total = tot\<rparr>\<rparr>, w')"
    using rw by (simp add: t1_def)
  show ?case
  proof (cases "action_id a = x")
    case True
    with Cons.prems have ab: "a = b" and none: "with_id x rest = []"
      by (simp_all add: with_id_def)
    from none have rest: "\<forall>c\<in>set rest. action_id c \<noteq> x"
      by (simp add: with_id_def filter_empty_conv)
    have r: "r = Resolved" using rw ab assms(2) by (simp add: run_executor_def)
    have t1: "remainingQueue t1 = remainingQueue t" "newFailed t1 = newFailed t"
        "successCount t1 = successCount t + 1"
      using r by (simp_all add: t1_def settle_def)
    have "successCount t1 \<le> successCount (fst (syncNow_loop ex tot (Suc i) rest
        (t1, st\<lparr>syncProgress := Some \<lparr>current = i + 1, total = tot\<rparr>\<rparr>, w')))"
      by (rule loop_successCount_mono)
    then show ?thesis
      unfolding step
      using loop_other_ids [OF rest, of ex tot "Suc i" t1 _ w'] t1 by simp
  next
    case False
    with Cons.prems have one: "with_id x rest = [b]" by (simp add: with_id_def)
    have le: "successCount t \<le> successCount t1"
      unfolding t1_def by (rule settle_successCount)
    have same: "with_id x (remainingQueue t1) = with_id x (remainingQueue t)"
        "with_id x (newFailed t1) = with_id x (newFailed t)"
      unfolding t1_def by (rule settle_other_id [OF False])+
    note ih = Cons.IH [OF one, of "Suc i" t1
        "st\<lparr>syncProgress := Some \<lparr>current = i + 1, total = tot\<rparr>\<rparr>" w']
    from ih le have "successCount t < successCount (fst (syncNow_loop ex tot (Suc i) rest
        (t1, st\<lparr>syncProgress := Some \<lparr>current = i + 1, total = tot\<rparr>\<rparr>, w')))"
      by linarith
    with ih same show ?thesis unfolding step by simp
  qed
qed

lemma settle_ids:
  "action_id ` set (remainingQueue (settle a r t)) \<subseteq>
     insert (action_id a) (action_id ` set (remainingQueue t))"
  by (auto simp: settle_def split: exec_result.splits)

lemma loop_ids_subset:
  "action_id ` set (remainingQueue (fst (syncNow_loop ex tot i xs (t, st, w)))) \<subseteq>
     action_id ` set (remainingQueue t) \<union> action_id ` set xs"
proof (induction xs arbitrary: i t st w)
  case Nil
  show ?case by simp
next
  case (Cons a rest)
  obtain r w' where rw: "run_executor ex a w = (r, w')" by (cases "run_executor ex a w")
  have step: "syncNow_loop ex tot i (a # rest) (t, st, w) =
      syncNow_loop ex tot (Suc i) rest
        (settle a r t, st\<lparr>syncProgress := Some \<lparr>current = i + 1, total = tot\<rparr>\<rparr>, w')"
    using rw by simp
  have "action_id ` set (remainingQueue (fst (syncNow_loop ex tot (Suc i) rest
      (settle a r t, st\<lparr>syncProgress := Some \<lparr>current = i + 1, total = tot\<rparr>\<rparr>, w')))) \<subseteq>
      action_id ` set (remainingQueue (settle a r t)) \<union> action_id ` set rest"
    by (rule Cons.IH)
  also have "\<dots> \<subseteq> insert (action_id a) (action_id ` set (remainingQueue t)) \<union>
      action_id ` set rest"
    using settle_ids [of a r t] by blast
  also have "\<dots> = action_id ` set (remainingQueue t) \<union> action_id ` set (a # rest)"
    by auto
  finally show ?case unfolding step .
qed

lemma syncNow_interleaved_nonempty:
  assumes "\<not> get_throws f QUEUE_KEY" and "idb st QUEUE_KEY = Some q" and "q \<noteq> []"
  shows "syncNow_interleaved ex f cFailed other (st, w) =
     (fst (syncNow_commit f cFailed
             (fst (syncNow_loop ex (length q) 0 q (tally0, st, w)))
             ((other (st\<lparr>isSyncing := True,
                 syncProgress := Some \<lparr>current = 0, total = length q\<rparr>\<rparr>))
                \<lparr>syncProgress := Some \<lparr>current = length q, total = length q\<rparr>\<rparr>)),
      snd (syncNow_commit f cFailed
             (fst (syncNow_loop ex (length q) 0 q (tally0, st, w)))
             ((other (st\<lparr>isSyncing := True,
                 syncProgress := Some \<lparr>current = 0, total = length q\<rparr>\<rparr>))
                \<lparr>syncProgress := Some \<lparr>current = length q, total = length q\<rparr>\<rparr>)),
      foldl (\<lambda>v a. snd (run_executor ex a v)) w q)"
proof -
  let ?st1 = "other (st\<lparr>isSyncing := True,
                 syncProgress := Some \<lparr>current = 0, total = length q\<rparr>\<rparr>)"
  obtain t st2 w2 where run: "syncNow_loop ex (length q) 0 q (tally0, ?st1, w) = (t, st2, w2)"
    by (cases "syncNow_loop ex (length q) 0 q (tally0, ?st1, w)")
  have t: "t = fst (syncNow_loop ex (length q) 0 q (tally0, st, w))"
    using loop_tally_indep [of ex "length q" 0 q tally0 ?st1 w "length q" 0 st] run by simp
  have st2: "st2 = ?st1\<lparr>syncProgress := Some \<lparr>current = length q, total = length q\<rparr>\<rparr>"
    using loop_engine [of ex "length q" 0 q tally0 ?st1 w] run assms(3) by simp
  have w2: "w2 = foldl (\<lambda>v a. snd (run_executor ex a v)) w q"
    using loop_world [of ex "length q" 0 q tally0 ?st1 w] run by simp
  have "syncNow_interleaved ex f cFailed other (st, w) =
      (fst (syncNow_commit f cFailed t st2), snd (syncNow_commit f cFailed t st2), w2)"
    using assms run by (simp add: syncNow_interleaved_def syncNow_begin_def split: prod.splits)
  then show ?thesis by (simp only: t st2 w2)
qed

lemma commit_queue:
  "queue (snd (syncNow_commit f cFailed t st)) = remainingQueue t"
  by (simp add: syncNow_commit_def syncNow_finish_def Let_def)

lemma commit_stored_queue:
  "\<not> set_throws f QUEUE_KEY \<Longrightarrow>
     idb (snd (syncNow_commit f cFailed t st)) QUEUE_KEY = Some (remainingQueue t)"
  by (simp add: syncNow_commit_def syncNow_finish_def Let_def)

lemma recording_step:
  "snd (run_executor (recording outcome) a calls) =
     calls @ (if has_executor a then [(action_type a, payload a)] else [])"
  by (cases "action_type a") (simp_all add: run_executor_def recording_def has_executor_def)

lemma recording_calls:
  "foldl (\<lambda>v a. snd (run_executor (recording outcome) a v)) calls q =
     calls @ map (\<lambda>a. (action_type a, payload a)) (filter has_executor q)"
  by (induction q arbitrary: calls) (simp_all add: recording_step)

subsection \<open>Where the ids stay distinct\<close>

text \<open>
  A drain called from the latest render on an engine whose stored pending queue mirrors
  the one in memory, \<open>discardFailedAction\<close>, and \<open>retryFailedAction\<close> up to its
  return all keep the ids of the two queues distinct.
\<close>

lemma settle_distinct:
  assumes "distinct (map action_id (remainingQueue t @ newFailed t @ a # rest))"
  shows "distinct (map action_id (remainingQueue (settle a r t) @ newFailed (settle a r t) @ rest))"
    and "action_id ` set (remainingQueue (settle a r t) @ newFailed (settle a r t) @ rest) \<subseteq>
         action_id ` set (remainingQueue t @ newFailed t @ a # rest)"
  using assms by (auto simp: settle_def split: exec_result.splits)

lemma loop_distinct:
  assumes "distinct (map action_id (remainingQueue t @ newFailed t @ xs))"
  shows "distinct (map action_id
           (remainingQueue (fst (syncNow_loop ex tot i xs (t, st, w))) @
            newFailed (fst (syncNow_loop ex tot i xs (t, st, w))))) \<and>
         action_id ` set (remainingQueue (fst (syncNow_loop ex tot i xs (t, st, w))) @
                          newFailed (fst (syncNow_loop ex tot i xs (t, st, w)))) \<subseteq>
           action_id ` set (remainingQueue t @ newFailed t @ xs)"
  using assms
proof (induction xs arbitrary: i t st w)
  case Nil
  then show ?case by simp
next
  case (Cons a rest)
  obtain r w' where rw: "run_executor ex a w = (r, w')" by (cases "run_executor ex a w")
  define t1 where "t1 = settle a r t"
  have step: "syncNow_loop ex tot i (a # rest) (t, st, w) =
      syncNow_loop ex tot (Suc i) rest
        (t1, st\<lparr>syncProgress := Some \<lparr>current = i + 1, total = tot\<rparr>\<rparr>, w')"
    using rw by (simp add: t1_def)
  have d1: "distinct (map action_id (remainingQueue t1 @ newFailed t1 @ rest))"
    and s1: "action_id ` set (remainingQueue t1 @ newFailed t1 @ rest) \<subseteq>
         action_id ` set (remainingQueue t @ newFailed t @ a # rest)"
    unfolding t1_def by (rule settle_distinct [OF Cons.prems])+
  from Cons.IH [OF d1, of "Suc i"
      "st\<lparr>syncProgress := Some \<lparr>current = i + 1, total = tot\<rparr>\<rparr>" w'] s1
  show ?case unfolding step by blast
qed

lemma drain_queues_distinct:
  assumes nf: "\<not> get_throws f QUEUE_KEY" "\<not> set_throws f QUEUE_KEY"
      "\<not> set_throws f FAILED_QUEUE_KEY"
    and coh: "idb st QUEUE_KEY = Some (queue st)"
    and inv: "queues_distinct st"
  shows "queues_distinct (fst (drain ex f (st, w)))"
proof (cases "queue st = []")
  case True
  then have "syncNow ex f (failedQueue st) (st, w) = (Inr (), st, w)"
    using nf(1) coh by (simp add: syncNow_def syncNow_begin_def)
  then show ?thesis using inv by (simp add: drain_def)
next
  case False
  let ?q = "queue st"
  let ?t = "fst (syncNow_loop ex (length ?q) 0 ?q (tally0, st, w))"
  let ?st2 = "st\<lparr>isSyncing := True,
                 syncProgress := Some \<lparr>current = length ?q, total = length ?q\<rparr>\<rparr>"
  have d: "fst (drain ex f (st, w)) = snd (syncNow_commit f (failedQueue st) ?t ?st2)"
    by (simp add: drain_def syncNow_nonempty [OF nf(1) coh False])
  have fq: "failedQueue (fst (drain ex f (st, w))) = failedQueue st @ newFailed ?t"
    unfolding d by (simp add: commit_ok(3) [OF nf(2,3)])
  have q: "queue (fst (drain ex f (st, w))) = remainingQueue ?t"
    unfolding d by (simp add: commit_ok(2) [OF nf(2,3)])
  have "distinct (map action_id (remainingQueue tally0 @ newFailed tally0 @ ?q))"
    using inv by (simp add: tally0_def queues_distinct_def)
  from loop_distinct [OF this, of ex "length ?q" 0 st w]
  have dist: "distinct (map action_id (remainingQueue ?t @ newFailed ?t))"
    and sub: "action_id ` set (remainingQueue ?t @ newFailed ?t) \<subseteq> action_id ` set ?q"
    by (simp_all add: tally0_def)
  have disj: "action_id ` set ?q \<inter> action_id ` set (failedQueue st) = {}"
    and df: "distinct (map action_id (failedQueue st))"
    using inv by (auto simp: queues_distinct_def)
  show ?thesis
    unfolding queues_distinct_def fq q using dist sub disj df by auto
qed

lemma discard_queues_distinct:
  "queues_distinct st \<Longrightarrow> queues_distinct (snd (discardFailedAction f actionId st))"
  by (auto simp: queues_distinct_def discardFailedAction_def Let_def distinct_map_filter)

lemma retry_queues_distinct:
  assumes "queues_distinct st"
  shows "queues_distinct (fst (snd (retryFailedAction f actionId st)))"
proof (cases "find (\<lambda>a. action_id a = actionId) (failedQueue st)")
  case None
  then show ?thesis using assms by (simp add: retryFailedAction_def)
next
  case (Some a)
  then have mem: "a \<in> set (failedQueue st)" and ida: "action_id a = actionId"
    by (auto simp: find_Some_iff)
  have q: "queue (fst (snd (retryFailedAction f actionId st))) =
      queue st @ [a\<lparr>retryCount := Some 0, lastError := None\<rparr>]"
    and fq: "failedQueue (fst (snd (retryFailedAction f actionId st))) =
      filter (\<lambda>b. action_id b \<noteq> actionId) (failedQueue st)"
    using Some by (simp_all add: retryFailedAction_def Let_def)
  have "actionId \<notin> action_id ` set (queue st)"
    using assms mem ida by (auto simp: queues_distinct_def)
  then show ?thesis
    unfolding queues_distinct_def q fq using assms ida
    by (auto simp: queues_distinct_def distinct_map_filter)
qed

subsection \<open>addOfflineAction\<close>

text \<open>
  A call through any callback leaves the captured queue followed by the new action. A
  call through the callback of the latest render appends to the pending queue: the
  pending count grows by one, the store holds the new queue when the call returns
  normally, the dead-letter queue is untouched, and a fresh id keeps the ids distinct.
\<close>

lemma addOfflineAction_effect:
  "(fst (addOfflineAction f cQueue newId now ty pl st) = Inr ()) = (\<not> set_throws f QUEUE_KEY)"
  "queue (snd (addOfflineAction f cQueue newId now ty pl st)) =
     cQueue @ [newAction newId now ty pl]"
  "\<not> set_throws f QUEUE_KEY \<Longrightarrow>
     idb (snd (addOfflineAction f cQueue newId now ty pl st)) QUEUE_KEY =
       Some (cQueue @ [newAction newId now ty pl])"
  "failedQueue (snd (addOfflineAction f cQueue newId now ty pl st)) = failedQueue st"
  "idb (snd (addOfflineAction f cQueue newId now ty pl st)) FAILED_QUEUE_KEY =
     idb st FAILED_QUEUE_KEY"
  "toasts (snd (addOfflineAction f cQueue newId now ty pl st)) = toasts st"
  by (simp_all add: addOfflineAction_def Let_def)

lemma addOfflineAction_latest_appends:
  "(fst (addOfflineAction_latest f newId now ty pl st) = Inr ()) =
     (\<not> set_throws f QUEUE_KEY) \<and>
   queue (snd (addOfflineAction_latest f newId now ty pl st)) =
     queue st @ [newAction newId now ty pl] \<and>
   (fst (addOfflineAction_latest f newId now ty pl st) = Inr () \<longrightarrow>
      idb (snd (addOfflineAction_latest f newId now ty pl st)) QUEUE_KEY =
        Some (queue (snd (addOfflineAction_latest f newId now ty pl st)))) \<and>
   length (queue (snd (addOfflineAction_latest f newId now ty pl st))) =
     length (queue st) + 1 \<and>
   failedQueue (snd (addOfflineAction_latest f newId now ty pl st)) = failedQueue st \<and>
   idb (snd (addOfflineAction_latest f newId now ty pl st)) FAILED_QUEUE_KEY =
     idb st FAILED_QUEUE_KEY \<and>
   (newId \<notin> action_id ` set (queue st @ failedQueue st) \<and> queues_distinct st \<longrightarrow>
      queues_distinct (snd (addOfflineAction_latest f newId now ty pl st)))"
  by (auto simp: addOfflineAction_latest_def addOfflineAction_def newAction_def Let_def
      queues_distinct_def)

lemma three_enqueues_latest:
  assumes "\<not> set_throws f QUEUE_KEY" and "queue st = []"
  shows "idb (snd (addOfflineAction_latest f idC nC tyC pC
                 (snd (addOfflineAction_latest f idB nB tyB pB
                   (snd (addOfflineAction_latest f idA nA tyA pA st))))))
           QUEUE_KEY =
         Some [newAction idA nA tyA pA, newAction idB nB tyB pB, newAction idC nC tyC pC]"
  using assms by (simp add: addOfflineAction_latest_def addOfflineAction_def Let_def)

subsection \<open>The windows of a drain\<close>

lemma commit_windows_nothing:
  "syncNow_commit_windows f cFailed id id t st = syncNow_commit f cFailed t st"
  by (simp add: syncNow_commit_windows_def syncNow_commit_def Let_def)

lemma syncNow_windows_early:
  "syncNow_windows ex f cFailed early id id s = syncNow_interleaved ex f cFailed early s"
  unfolding syncNow_windows_def syncNow_interleaved_def commit_windows_nothing
  by (rule refl)

lemma syncNow_windows_nonempty:
  assumes "\<not> get_throws f QUEUE_KEY" and "idb st QUEUE_KEY = Some q" and "q \<noteq> []"
  shows "fst (snd (syncNow_windows ex f cFailed early late1 late2 (st, w))) =
     snd (syncNow_commit_windows f cFailed late1 late2
             (fst (syncNow_loop ex (length q) 0 q (tally0, st, w)))
             ((early (st\<lparr>isSyncing := True,
                 syncProgress := Some \<lparr>current = 0, total = length q\<rparr>\<rparr>))
                \<lparr>syncProgress := Some \<lparr>current = length q, total = length q\<rparr>\<rparr>))"
proof -
  let ?st1 = "early (st\<lparr>isSyncing := True,
                 syncProgress := Some \<lparr>current = 0, total = length q\<rparr>\<rparr>)"
  obtain t st2 w2 where run: "syncNow_loop ex (length q) 0 q (tally0, ?st1, w) = (t, st2, w2)"
    by (cases "syncNow_loop ex (length q) 0 q (tally0, ?st1, w)")
  have t: "t = fst (syncNow_loop ex (length q) 0 q (tally0, st, w))"
    using loop_tally_indep [of ex "length q" 0 q tally0 ?st1 w "length q" 0 st] run by simp
  have st2: "st2 = ?st1\<lparr>syncProgress := Some \<lparr>current = length q, total = length q\<rparr>\<rparr>"
    using loop_engine [of ex "length q" 0 q tally0 ?st1 w] run assms(3) by simp
  have "fst (snd (syncNow_windows ex f cFailed early late1 late2 (st, w))) =
      snd (syncNow_commit_windows f cFailed late1 late2 t st2)"
    using assms run by (simp add: syncNow_windows_def syncNow_begin_def split: prod.splits)
  then show ?thesis by (simp only: t st2)
qed

lemma commit_windows_late1:
  assumes "\<not> set_throws f QUEUE_KEY"
  shows "queue (snd (syncNow_commit_windows f cFailed
            (enqueued f' cQueue newId now ty pl) id t st)) =
           cQueue @ [newAction newId now ty pl]"
    and "\<not> set_throws f' QUEUE_KEY \<Longrightarrow>
         idb (snd (syncNow_commit_windows f cFailed
            (enqueued f' cQueue newId now ty pl) id t st)) QUEUE_KEY =
           Some (cQueue @ [newAction newId now ty pl])"
    and "queue (snd (syncNow_commit_windows f cFailed
            (enqueued_latest f' newId now ty pl) id t st)) =
           remainingQueue t @ [newAction newId now ty pl]"
    and "\<not> set_throws f' QUEUE_KEY \<Longrightarrow>
         idb (snd (syncNow_commit_windows f cFailed
            (enqueued_latest f' newId now ty pl) id t st)) QUEUE_KEY =
           Some (remainingQueue t @ [newAction newId now ty pl])"
  using assms
  by (simp_all add: syncNow_commit_windows_def syncNow_finish_def enqueued_def
      enqueued_latest_def addOfflineAction_latest_def addOfflineAction_def Let_def)

lemma commit_windows_late2:
  assumes "\<not> set_throws f QUEUE_KEY" and "newFailed t \<noteq> []"
  shows "queue (snd (syncNow_commit_windows f cFailed late1
            (enqueued f' cQueue newId now ty pl) t st)) =
           cQueue @ [newAction newId now ty pl]"
    and "\<not> set_throws f' QUEUE_KEY \<Longrightarrow>
         idb (snd (syncNow_commit_windows f cFailed late1
            (enqueued f' cQueue newId now ty pl) t st)) QUEUE_KEY =
           Some (cQueue @ [newAction newId now ty pl])"
    and "queue (snd (syncNow_commit_windows f cFailed id
            (enqueued_latest f' newId now ty pl) t st)) =
           remainingQueue t @ [newAction newId now ty pl]"
    and "\<not> set_throws f' QUEUE_KEY \<Longrightarrow>
         idb (snd (syncNow_commit_windows f cFailed id
            (enqueued_latest f' newId now ty pl) t st)) QUEUE_KEY =
           Some (remainingQueue t @ [newAction newId now ty pl])"
  using assms
  by (simp_all add: syncNow_commit_windows_def syncNow_finish_def enqueued_def
      enqueued_latest_def addOfflineAction_latest_def addOfflineAction_def Let_def)

section \<open>Claims\<close>

subsection \<open>C1: retries before the dead-letter queue\<close>

text \<open>
  C1, as stated, fails: an action whose executor has thrown in three consecutive drains
  is not in the dead-letter queue. It is still pending, with \<open>retryCount = 3\<close>,
  because the test \<open>currentRetries < MAX_RETRIES\<close> held at the third failure
  (\<open>2 < 3\<close>).
\<close>

theorem three_failures_still_pending:
  "queue (fst ((drain ex_demo no_faults ^^ 3) (engine_of [act_B] [], []))) =
     [act_B\<lparr>retryCount := Some 3, lastError := Some ''denied''\<rparr>] \<and>
   failedQueue (fst ((drain ex_demo no_faults ^^ 3) (engine_of [act_B] [], []))) = []"
  by (simp add: numeral_3_eq_3 drain_simps engine_of_def act_B_def ex_demo_def no_faults_def)

text \<open>
  C1, amended: take an action enqueued with \<open>retryCount = 0\<close>, the only entry with
  its id in the pending queue and absent from the dead-letter queue, whose executor
  throws at every attempt, and let the store never reject. After \<open>n \<le> 3\<close>
  consecutive drains it is in pending with \<open>retryCount = n\<close> (and a \<open>lastError\<close>
  once \<open>n > 0\<close>) and not in the dead-letter queue; the fourth consecutive drain
  (\<open>MAX_RETRIES + 1\<close> failures) moves it to the dead-letter queue, where it arrives
  with \<open>retryCount = 3\<close>.
\<close>

theorem dead_letter_on_fourth_failure:
  assumes nf: "\<not> get_throws f QUEUE_KEY" "\<not> set_throws f QUEUE_KEY"
      "\<not> set_throws f FAILED_QUEUE_KEY"
    and coh: "idb st QUEUE_KEY = Some (queue st)"
    and one: "with_id (action_id a) (queue st) = [a]"
    and none: "with_id (action_id a) (failedQueue st) = []"
    and zero: "retryCount a = Some 0"
    and rej: "always_rejects ex a"
  shows "(\<forall>n\<le>3. \<exists>e.
           with_id (action_id a) (queue (fst ((drain ex f ^^ n) (st, w)))) =
             [a\<lparr>retryCount := Some n, lastError := e\<rparr>] \<and>
           (0 < n \<longrightarrow> e \<noteq> None) \<and>
           with_id (action_id a) (failedQueue (fst ((drain ex f ^^ n) (st, w)))) = []) \<and>
         (\<exists>msg.
           with_id (action_id a) (queue (fst ((drain ex f ^^ 4) (st, w)))) = [] \<and>
           with_id (action_id a) (failedQueue (fst ((drain ex f ^^ 4) (st, w)))) =
             [a\<lparr>retryCount := Some 3, lastError := Some msg\<rparr>])"
proof (intro conjI allI impI)
  fix n :: nat
  assume "n \<le> 3"
  then have "n \<le> MAX_RETRIES" by (simp add: MAX_RETRIES_def)
  from drains_rejected [OF nf coh one none zero rej this, of w]
  show "\<exists>e. with_id (action_id a) (queue (fst ((drain ex f ^^ n) (st, w)))) =
             [a\<lparr>retryCount := Some n, lastError := e\<rparr>] \<and>
           (0 < n \<longrightarrow> e \<noteq> None) \<and>
           with_id (action_id a) (failedQueue (fst ((drain ex f ^^ n) (st, w)))) = []"
    by blast
next
  obtain st3 w3 where s: "(drain ex f ^^ 3) (st, w) = (st3, w3)"
    by (cases "(drain ex f ^^ 3) (st, w)")
  have "3 \<le> MAX_RETRIES" by (simp add: MAX_RETRIES_def)
  from drains_rejected [OF nf coh one none zero rej this, of w] s
  obtain e where coh3: "idb st3 QUEUE_KEY = Some (queue st3)"
    and one3: "with_id (action_id a) (queue st3) = [a\<lparr>retryCount := Some 3, lastError := e\<rparr>]"
    and none3: "with_id (action_id a) (failedQueue st3) = []"
    by auto
  let ?b = "a\<lparr>retryCount := Some 3, lastError := e\<rparr>"
  have rej3: "always_rejects ex ?b"
    using rej always_rejects_cong [of ?b a ex] by simp
  have cr: "\<not> currentRetries ?b < MAX_RETRIES"
    by (simp add: currentRetries_def MAX_RETRIES_def)
  have four: "(drain ex f ^^ 4) (st, w) = drain ex f (st3, w3)"
    using s by (simp add: eval_nat_numeral)
  from drain_rejected_step [OF nf coh3 one3 rej3, of w3] cr none3
  show "\<exists>msg.
           with_id (action_id a) (queue (fst ((drain ex f ^^ 4) (st, w)))) = [] \<and>
           with_id (action_id a) (failedQueue (fst ((drain ex f ^^ 4) (st, w)))) =
             [a\<lparr>retryCount := Some 3, lastError := Some msg\<rparr>]"
    unfolding four by auto
qed

text \<open>
  The amended C1 at a concrete queue: \<open>act_B\<close> behind an action that succeeds.
\<close>

theorem dead_letter_on_fourth_failure_witness:
  "with_id ''id-b'' (queue (fst ((drain ex_demo no_faults ^^ 4) (engine_of [act_A, act_B] [], [])))) = [] \<and>
   with_id ''id-b'' (failedQueue (fst ((drain ex_demo no_faults ^^ 4) (engine_of [act_A, act_B] [], [])))) =
     [act_B\<lparr>retryCount := Some 3, lastError := Some ''denied''\<rparr>]"
proof -
  let ?st = "engine_of [act_A, act_B] [] :: string engine"
  have h1: "\<not> get_throws no_faults QUEUE_KEY" "\<not> set_throws no_faults QUEUE_KEY"
      "\<not> set_throws no_faults FAILED_QUEUE_KEY"
    by (simp_all add: no_faults_def)
  have h2: "idb ?st QUEUE_KEY = Some (queue ?st)" by (simp add: engine_of_def)
  have h3: "with_id (action_id act_B) (queue ?st) = [act_B]"
    by (simp add: engine_of_def with_id_def act_A_def act_B_def)
  have h4: "with_id (action_id act_B) (failedQueue ?st) = []"
    by (simp add: engine_of_def with_id_def)
  have h5: "retryCount act_B = Some 0" by (simp add: act_B_def)
  have h6: "always_rejects ex_demo act_B"
    by (simp add: always_rejects_def run_executor_def act_B_def ex_demo_def)
  from dead_letter_on_fourth_failure [OF h1 h2 h3 h4 h5 h6, of "[]"]
  obtain msg where
    q: "with_id (action_id act_B) (queue (fst ((drain ex_demo no_faults ^^ 4) (?st, [])))) = []"
    and fq: "with_id (action_id act_B) (failedQueue (fst ((drain ex_demo no_faults ^^ 4) (?st, [])))) =
       [act_B\<lparr>retryCount := Some 3, lastError := Some msg\<rparr>]"
    by blast
  have id: "action_id act_B = ''id-b''" by (simp add: act_B_def)
  have "with_id ''id-b'' (failedQueue (fst ((drain ex_demo no_faults ^^ 4) (?st, [])))) =
     [act_B\<lparr>retryCount := Some 3, lastError := Some ''denied''\<rparr>]"
    by (simp add: eval_nat_numeral drain_simps engine_of_def act_A_def act_B_def ex_demo_def
        no_faults_def with_id_def)
  with q id show ?thesis by simp
qed

subsection \<open>C9: enqueue\<close>

text \<open>
  C9 does not hold of \<open>addOfflineAction\<close> when it is called through a callback that
  is not the one of the latest render. Two submissions are started on the engine of the
  first render; both hold the callback that captured the empty queue. The first call
  leaves \<open>[act_A]\<close> pending. The second call returns normally and leaves
  \<open>[act_B]\<close> pending, in memory and in the store: the new action was appended to the
  captured queue, \<open>act_A\<close> is gone, and the pending count did not grow.
\<close>

theorem stale_enqueue_overwrites_pending:
  "queue (snd (addOfflineAction no_faults [] ''id-a'' 1 SUBMIT_ACTIVITY ''pa'' engine_init)) =
     [act_A] \<and>
   fst (addOfflineAction no_faults [] ''id-b'' 2 GRADE_ACTIVITY ''pb''
     (snd (addOfflineAction no_faults [] ''id-a'' 1 SUBMIT_ACTIVITY ''pa'' engine_init))) =
     Inr () \<and>
   queue (snd (addOfflineAction no_faults [] ''id-b'' 2 GRADE_ACTIVITY ''pb''
     (snd (addOfflineAction no_faults [] ''id-a'' 1 SUBMIT_ACTIVITY ''pa'' engine_init)))) =
     [act_B] \<and>
   idb (snd (addOfflineAction no_faults [] ''id-b'' 2 GRADE_ACTIVITY ''pb''
     (snd (addOfflineAction no_faults [] ''id-a'' 1 SUBMIT_ACTIVITY ''pa'' engine_init))))
     QUEUE_KEY = Some [act_B] \<and>
   length (queue (snd (addOfflineAction no_faults [] ''id-b'' 2 GRADE_ACTIVITY ''pb''
     (snd (addOfflineAction no_faults [] ''id-a'' 1 SUBMIT_ACTIVITY ''pa'' engine_init))))) =
   length (queue (snd (addOfflineAction no_faults [] ''id-a'' 1 SUBMIT_ACTIVITY ''pa''
     engine_init)))"
  by (simp add: addOfflineAction_def newAction_def engine_init_def no_faults_def
      act_A_def act_B_def Let_def)

subsection \<open>C6: retry from the dead-letter queue\<close>

text \<open>
  C6: when the id is in the dead-letter queue and the store accepts both writes,
  \<open>retryFailedAction\<close> removes the id from the dead-letter queue, appends the action
  with \<open>retryCount = 0\<close> and no \<open>lastError\<close> to the end of the pending queue, and
  stores both queues; when the id is not in the dead-letter queue it changes nothing and
  starts no drain. The state is the one at the return of \<open>retryFailedAction\<close>; the
  drain it starts has not yet read the store.
\<close>

theorem retryFailedAction_moves_back:
  "(actionId \<in> action_id ` set (failedQueue st) \<and>
    \<not> set_throws f QUEUE_KEY \<and> \<not> set_throws f FAILED_QUEUE_KEY \<longrightarrow>
      (\<exists>a \<in> set (failedQueue st). action_id a = actionId \<and>
         fst (retryFailedAction f actionId st) = Inr () \<and>
         failedQueue (fst (snd (retryFailedAction f actionId st))) =
           filter (\<lambda>b. action_id b \<noteq> actionId) (failedQueue st) \<and>
         actionId \<notin> action_id ` set (failedQueue (fst (snd (retryFailedAction f actionId st)))) \<and>
         queue (fst (snd (retryFailedAction f actionId st))) =
           queue st @ [a\<lparr>retryCount := Some 0, lastError := None\<rparr>] \<and>
         idb (fst (snd (retryFailedAction f actionId st))) QUEUE_KEY =
           Some (queue (fst (snd (retryFailedAction f actionId st)))) \<and>
         idb (fst (snd (retryFailedAction f actionId st))) FAILED_QUEUE_KEY =
           Some (failedQueue (fst (snd (retryFailedAction f actionId st)))))) \<and>
   (actionId \<notin> action_id ` set (failedQueue st) \<longrightarrow>
      retryFailedAction f actionId st = (Inr (), st, None))"
proof (intro conjI impI)
  assume h: "actionId \<in> action_id ` set (failedQueue st) \<and>
    \<not> set_throws f QUEUE_KEY \<and> \<not> set_throws f FAILED_QUEUE_KEY"
  then obtain a where fa: "find (\<lambda>a. action_id a = actionId) (failedQueue st) = Some a"
    by (cases "find (\<lambda>a. action_id a = actionId) (failedQueue st)")
       (auto simp: find_None_iff)
  then have mem: "a \<in> set (failedQueue st)" and ida: "action_id a = actionId"
    by (auto simp: find_Some_iff)
  show "\<exists>a \<in> set (failedQueue st). action_id a = actionId \<and>
         fst (retryFailedAction f actionId st) = Inr () \<and>
         failedQueue (fst (snd (retryFailedAction f actionId st))) =
           filter (\<lambda>b. action_id b \<noteq> actionId) (failedQueue st) \<and>
         actionId \<notin> action_id ` set (failedQueue (fst (snd (retryFailedAction f actionId st)))) \<and>
         queue (fst (snd (retryFailedAction f actionId st))) =
           queue st @ [a\<lparr>retryCount := Some 0, lastError := None\<rparr>] \<and>
         idb (fst (snd (retryFailedAction f actionId st))) QUEUE_KEY =
           Some (queue (fst (snd (retryFailedAction f actionId st)))) \<and>
         idb (fst (snd (retryFailedAction f actionId st))) FAILED_QUEUE_KEY =
           Some (failedQueue (fst (snd (retryFailedAction f actionId st))))"
    using h fa mem ida
    by (intro bexI [of _ a]) (auto simp: retryFailedAction_def Let_def)
next
  assume "actionId \<notin> action_id ` set (failedQueue st)"
  then have "find (\<lambda>a. action_id a = actionId) (failedQueue st) = None"
    by (auto simp: find_None_iff)
  then show "retryFailedAction f actionId st = (Inr (), st, None)"
    by (simp add: retryFailedAction_def)
qed

text \<open>
  C6 at a concrete input: \<open>act_B\<close>, dead-lettered with \<open>retryCount = 3\<close>, is
  retried; an id that is not in the dead-letter queue is not.
\<close>

theorem retryFailedAction_moves_back_witness:
  "fst (retryFailedAction no_faults ''id-b''
          (engine_of [act_A] [act_B\<lparr>retryCount := Some 3, lastError := Some ''denied''\<rparr>])) = Inr () \<and>
   queue (fst (snd (retryFailedAction no_faults ''id-b''
          (engine_of [act_A] [act_B\<lparr>retryCount := Some 3, lastError := Some ''denied''\<rparr>])))) =
     [act_A, act_B] \<and>
   failedQueue (fst (snd (retryFailedAction no_faults ''id-b''
          (engine_of [act_A] [act_B\<lparr>retryCount := Some 3, lastError := Some ''denied''\<rparr>])))) = [] \<and>
   retryFailedAction no_faults ''id-c''
          (engine_of [act_A] [act_B\<lparr>retryCount := Some 3, lastError := Some ''denied''\<rparr>]) =
     (Inr (), engine_of [act_A] [act_B\<lparr>retryCount := Some 3, lastError := Some ''denied''\<rparr>], None)"
proof -
  let ?b3 = "act_B\<lparr>retryCount := Some 3, lastError := Some ''denied''\<rparr>"
  let ?st = "engine_of [act_A] [?b3] :: string engine"
  let ?r = "retryFailedAction no_faults ''id-b'' ?st"
  have fq: "failedQueue ?st = [?b3]" and q: "queue ?st = [act_A]"
    by (simp_all add: engine_of_def)
  have idb: "action_id ?b3 = ''id-b''" by (simp add: act_B_def)
  have reset: "?b3\<lparr>retryCount := Some 0, lastError := None\<rparr> = act_B" by (simp add: act_B_def)
  have present: "''id-b'' \<in> action_id ` set (failedQueue ?st) \<and>
      \<not> set_throws no_faults QUEUE_KEY \<and> \<not> set_throws no_faults FAILED_QUEUE_KEY"
    by (simp add: fq idb no_faults_def)
  have absent: "''id-c'' \<notin> action_id ` set (failedQueue ?st)"
    by (simp add: fq idb)
  from retryFailedAction_moves_back [of "''id-b''" ?st no_faults] present
  obtain a where a: "a \<in> set (failedQueue ?st)"
    and r1: "fst ?r = Inr ()"
    and r2: "failedQueue (fst (snd ?r)) = filter (\<lambda>b. action_id b \<noteq> ''id-b'') (failedQueue ?st)"
    and r3: "queue (fst (snd ?r)) = queue ?st @ [a\<lparr>retryCount := Some 0, lastError := None\<rparr>]"
    by blast
  from a have ab: "a = ?b3" by (simp add: fq)
  have ra: "a\<lparr>retryCount := Some 0, lastError := None\<rparr> = act_B"
    unfolding ab by (simp add: act_B_def)
  have q3: "queue (fst (snd ?r)) = [act_A, act_B]"
    using r3 unfolding ra q by simp
  from r2 have q2: "failedQueue (fst (snd ?r)) = []" by (simp add: fq idb)
  from retryFailedAction_moves_back [of "''id-c''" ?st no_faults] absent
  have q4: "retryFailedAction no_faults ''id-c'' ?st = (Inr (), ?st, None)" by blast
  from r1 q2 q3 q4 show ?thesis by blast
qed

subsection \<open>C2: a drain called during a drain\<close>

text \<open>
  C2, as stated, fails: \<open>syncNow\<close> never reads \<open>isSyncing\<close>. Called with
  \<open>isSyncing = True\<close> and a stored pending queue of one action, it runs the executor,
  empties the pending queue and writes the store.
\<close>

theorem syncNow_ignores_isSyncing_example:
  "isSyncing ((engine_of [act_A] [])\<lparr>isSyncing := True\<rparr>) \<and>
   syncNow ex_demo no_faults [] ((engine_of [act_A] [])\<lparr>isSyncing := True\<rparr>, []) \<noteq>
     (Inr (), (engine_of [act_A] [])\<lparr>isSyncing := True\<rparr>, []) \<and>
   queue (fst (snd (syncNow ex_demo no_faults []
     ((engine_of [act_A] [])\<lparr>isSyncing := True\<rparr>, [])))) = [] \<and>
   idb (fst (snd (syncNow ex_demo no_faults []
     ((engine_of [act_A] [])\<lparr>isSyncing := True\<rparr>, [])))) QUEUE_KEY = Some [] \<and>
   snd (snd (syncNow ex_demo no_faults []
     ((engine_of [act_A] [])\<lparr>isSyncing := True\<rparr>, []))) = [''pa'']"
  by (simp add: drain_simps engine_of_def act_A_def ex_demo_def no_faults_def)

text \<open>
  C2, amended: \<open>syncNow\<close> is a no-op when the stored pending queue is missing or
  empty. When it is not empty, a call made while a drain is in progress
  (\<open>isSyncing = True\<close>) does exactly what a call outside a drain does: it runs the
  executors over the stored batch and replaces the pending queue.
\<close>

theorem syncNow_noop_only_on_empty_store:
  "(\<not> get_throws f QUEUE_KEY \<and> (idb st QUEUE_KEY = None \<or> idb st QUEUE_KEY = Some []) \<longrightarrow>
      syncNow ex f cFailed (st, w) = (Inr (), st, w)) \<and>
   (\<not> get_throws f QUEUE_KEY \<and> idb st QUEUE_KEY = Some q \<and> q \<noteq> [] \<longrightarrow>
      syncNow ex f cFailed (st\<lparr>isSyncing := True\<rparr>, w) =
        syncNow ex f cFailed (st\<lparr>isSyncing := False\<rparr>, w) \<and>
      snd (snd (syncNow ex f cFailed (st\<lparr>isSyncing := True\<rparr>, w))) =
        foldl (\<lambda>v a. snd (run_executor ex a v)) w q \<and>
      queue (fst (snd (syncNow ex f cFailed (st\<lparr>isSyncing := True\<rparr>, w)))) =
        remainingQueue (fst (syncNow_loop ex (length q) 0 q (tally0, st, w))))"
proof (intro conjI impI)
  assume "\<not> get_throws f QUEUE_KEY \<and> (idb st QUEUE_KEY = None \<or> idb st QUEUE_KEY = Some [])"
  then show "syncNow ex f cFailed (st, w) = (Inr (), st, w)"
    by (auto simp: syncNow_def syncNow_begin_def)
next
  assume h: "\<not> get_throws f QUEUE_KEY \<and> idb st QUEUE_KEY = Some q \<and> q \<noteq> []"
  then have g: "\<not> get_throws f QUEUE_KEY" and ne: "q \<noteq> []" by simp_all
  have s: "idb (st\<lparr>isSyncing := b\<rparr>) QUEUE_KEY = Some q" for b using h by simp
  have t: "fst (syncNow_loop ex (length q) 0 q (tally0, st\<lparr>isSyncing := b\<rparr>, w)) =
      fst (syncNow_loop ex (length q) 0 q (tally0, st, w))" for b
    by (rule loop_tally_indep)
  show "syncNow ex f cFailed (st\<lparr>isSyncing := True\<rparr>, w) =
        syncNow ex f cFailed (st\<lparr>isSyncing := False\<rparr>, w)"
    by (simp add: syncNow_nonempty [OF g s ne] t)
  show "snd (snd (syncNow ex f cFailed (st\<lparr>isSyncing := True\<rparr>, w))) =
        foldl (\<lambda>v a. snd (run_executor ex a v)) w q"
    by (simp add: syncNow_nonempty [OF g s ne])
  show "queue (fst (snd (syncNow ex f cFailed (st\<lparr>isSyncing := True\<rparr>, w)))) =
        remainingQueue (fst (syncNow_loop ex (length q) 0 q (tally0, st, w)))"
    by (simp add: syncNow_nonempty [OF g s ne] t syncNow_commit_def syncNow_finish_def Let_def)
qed

text \<open>
  The amended C2 at concrete inputs: an empty stored queue, and a stored queue of one
  action, both with \<open>isSyncing = True\<close>.
\<close>

theorem syncNow_noop_only_on_empty_store_witness:
  "syncNow ex_demo no_faults [] ((engine_of [] [])\<lparr>isSyncing := True\<rparr>, []) =
     (Inr (), (engine_of [] [])\<lparr>isSyncing := True\<rparr>, []) \<and>
   syncNow ex_demo no_faults [] ((engine_of [act_A] [])\<lparr>isSyncing := True\<rparr>, []) =
     syncNow ex_demo no_faults [] ((engine_of [act_A] [])\<lparr>isSyncing := False\<rparr>, []) \<and>
   snd (snd (syncNow ex_demo no_faults [] ((engine_of [act_A] [])\<lparr>isSyncing := True\<rparr>, []))) =
     [''pa'']"
proof -
  let ?e = "(engine_of [] [])\<lparr>isSyncing := True\<rparr> :: string engine"
  let ?st = "engine_of [act_A] [] :: string engine"
  have h1: "\<not> get_throws no_faults QUEUE_KEY \<and>
      (idb ?e QUEUE_KEY = None \<or> idb ?e QUEUE_KEY = Some [])"
    by (simp add: no_faults_def engine_of_def)
  have h2: "\<not> get_throws no_faults QUEUE_KEY \<and> idb ?st QUEUE_KEY = Some [act_A] \<and>
      [act_A] \<noteq> []"
    by (simp add: no_faults_def engine_of_def)
  from syncNow_noop_only_on_empty_store
      [where f = no_faults and st = ?e and ex = ex_demo and cFailed = "[]" and w = "[]"] h1
  have a: "syncNow ex_demo no_faults [] (?e, []) = (Inr (), ?e, [])" by blast
  from syncNow_noop_only_on_empty_store
      [where f = no_faults and st = ?st and q = "[act_A]" and ex = ex_demo
         and cFailed = "[]" and w = "[]"] h2
  have b: "syncNow ex_demo no_faults [] (?st\<lparr>isSyncing := True\<rparr>, []) =
        syncNow ex_demo no_faults [] (?st\<lparr>isSyncing := False\<rparr>, [])"
    and c: "snd (snd (syncNow ex_demo no_faults [] (?st\<lparr>isSyncing := True\<rparr>, []))) =
        foldl (\<lambda>v a. snd (run_executor ex_demo a v)) [] [act_A]"
    by blast+
  have "foldl (\<lambda>v a. snd (run_executor ex_demo a v)) [] [act_A] = [''pa'']"
    by (simp add: run_executor_def ex_demo_def act_A_def)
  with a b c show ?thesis by simp
qed

subsection \<open>C7: one failure among three actions\<close>

text \<open>
  C7: the stored pending queue holds \<open>A\<close>, \<open>B\<close>, \<open>C\<close> in the order of their
  enqueues, \<open>B\<close> with \<open>retryCount = 0\<close>; in one drain the executor of \<open>B\<close>
  throws and those of \<open>A\<close> and \<open>C\<close> resolve. Afterwards the pending queue is exactly
  \<open>B\<close> with \<open>retryCount = 1\<close>, the dead-letter queue is unchanged, and the success
  toast reports 2.
\<close>

theorem one_failure_among_three:
  assumes "\<not> get_throws f QUEUE_KEY" and "\<not> set_throws f QUEUE_KEY"
    and "idb st QUEUE_KEY = Some [A, B, C]"
    and "retryCount B = Some 0"
    and "run_executor ex A w = (Resolved, w1)"
    and "run_executor ex B w1 = (Rejected msg, w2)"
    and "run_executor ex C w2 = (Resolved, w3)"
  shows "fst (syncNow ex f cFailed (st, w)) = Inr () \<and>
         queue (fst (snd (syncNow ex f cFailed (st, w)))) =
           [B\<lparr>retryCount := Some 1, lastError := Some msg\<rparr>] \<and>
         idb (fst (snd (syncNow ex f cFailed (st, w)))) QUEUE_KEY =
           Some [B\<lparr>retryCount := Some 1, lastError := Some msg\<rparr>] \<and>
         failedQueue (fst (snd (syncNow ex f cFailed (st, w)))) = failedQueue st \<and>
         idb (fst (snd (syncNow ex f cFailed (st, w)))) FAILED_QUEUE_KEY =
           idb st FAILED_QUEUE_KEY \<and>
         toasts (fst (snd (syncNow ex f cFailed (st, w)))) = toasts st @ [ToastSuccess 2] \<and>
         snd (snd (syncNow ex f cFailed (st, w))) = w3"
proof -
  have cr: "currentRetries B = 0" using assms(4) by (simp add: currentRetries_def)
  have run: "syncNow ex f cFailed (st, w) =
      (Inr (),
       st\<lparr>isSyncing := False, syncProgress := None,
           queue := [B\<lparr>retryCount := Some 1, lastError := Some msg\<rparr>],
           idb := (idb st)(QUEUE_KEY \<mapsto> [B\<lparr>retryCount := Some 1, lastError := Some msg\<rparr>]),
           toasts := toasts st @ [ToastSuccess 2]\<rparr>, w3)"
    using assms(1,2,3,5,6,7) cr
    by (simp add: syncNow_def syncNow_begin_def syncNow_commit_def syncNow_finish_def
        settle_def tally0_def MAX_RETRIES_def Let_def)
  show ?thesis by (simp add: run)
qed

text \<open>
  C7 at a concrete input: the three actions are enqueued on the engine of the first
  render, each through the callback of the latest render.
\<close>

theorem one_failure_among_three_witness:
  "queue (fst (snd (syncNow ex_demo no_faults []
     (snd (addOfflineAction_latest no_faults ''id-c'' 3 POST_NOTICE ''pc''
        (snd (addOfflineAction_latest no_faults ''id-b'' 2 GRADE_ACTIVITY ''pb''
          (snd (addOfflineAction_latest no_faults ''id-a'' 1 SUBMIT_ACTIVITY ''pa''
             engine_init))))),
      [])))) = [act_B\<lparr>retryCount := Some 1, lastError := Some ''denied''\<rparr>] \<and>
   failedQueue (fst (snd (syncNow ex_demo no_faults []
     (snd (addOfflineAction_latest no_faults ''id-c'' 3 POST_NOTICE ''pc''
        (snd (addOfflineAction_latest no_faults ''id-b'' 2 GRADE_ACTIVITY ''pb''
          (snd (addOfflineAction_latest no_faults ''id-a'' 1 SUBMIT_ACTIVITY ''pa''
             engine_init))))),
      [])))) = [] \<and>
   toasts (fst (snd (syncNow ex_demo no_faults []
     (snd (addOfflineAction_latest no_faults ''id-c'' 3 POST_NOTICE ''pc''
        (snd (addOfflineAction_latest no_faults ''id-b'' 2 GRADE_ACTIVITY ''pb''
          (snd (addOfflineAction_latest no_faults ''id-a'' 1 SUBMIT_ACTIVITY ''pa''
             engine_init))))),
      [])))) = [ToastSuccess 2]"
proof -
  let ?st3 = "snd (addOfflineAction_latest no_faults ''id-c'' 3 POST_NOTICE ''pc''
        (snd (addOfflineAction_latest no_faults ''id-b'' 2 GRADE_ACTIVITY ''pb''
          (snd (addOfflineAction_latest no_faults ''id-a'' 1 SUBMIT_ACTIVITY ''pa''
             (engine_init :: string engine))))))"
  have h1: "\<not> get_throws no_faults QUEUE_KEY" and h2: "\<not> set_throws no_faults QUEUE_KEY"
    by (simp_all add: no_faults_def)
  have q0: "queue (engine_init :: string engine) = []" by (simp add: engine_init_def)
  have na: "newAction ''id-a'' 1 SUBMIT_ACTIVITY ''pa'' = act_A"
    and nb: "newAction ''id-b'' 2 GRADE_ACTIVITY ''pb'' = act_B"
    and nc: "newAction ''id-c'' 3 POST_NOTICE ''pc'' = act_C"
    by (simp_all add: newAction_def act_A_def act_B_def act_C_def)
  have h3: "idb ?st3 QUEUE_KEY = Some [act_A, act_B, act_C]"
    using three_enqueues_latest [OF h2 q0] by (simp only: na nb nc)
  have h4: "retryCount act_B = Some 0" by (simp add: act_B_def)
  have ra: "run_executor ex_demo act_A [] = (Resolved, [''pa''])"
    by (simp add: run_executor_def ex_demo_def act_A_def)
  have rb: "run_executor ex_demo act_B [''pa''] = (Rejected ''denied'', [''pa''])"
    by (simp add: run_executor_def ex_demo_def act_B_def)
  have rc: "run_executor ex_demo act_C [''pa''] = (Resolved, [''pa'', ''pc''])"
    by (simp add: run_executor_def ex_demo_def act_C_def)
  have f3: "failedQueue ?st3 = []" and t3: "toasts ?st3 = []"
    by (simp_all add: addOfflineAction_latest_def addOfflineAction_effect engine_init_def)
  from one_failure_among_three [OF h1 h2 h3 h4 ra rb rc, of "[]"]
  show ?thesis by (simp only: f3 t3 append.simps)
qed

subsection \<open>C10: a store write that fails inside a drain\<close>

text \<open>
  C10: in a drain over a non-empty stored queue, when the write of the pending queue
  rejects, or the write of the dead-letter queue rejects (it is made only when an action
  was dead-lettered), \<open>syncNow\<close> ends with the storage error, \<open>isSyncing\<close> is
  still \<open>True\<close> and \<open>syncProgress\<close> is still set. The two are cleared exactly when
  no write rejects.
\<close>

theorem storage_failure_keeps_isSyncing:
  assumes "\<not> get_throws f QUEUE_KEY" and "idb st QUEUE_KEY = Some q" and "q \<noteq> []"
  shows
    "(set_throws f QUEUE_KEY \<or>
      newFailed (fst (syncNow_loop ex (length q) 0 q (tally0, st, w))) \<noteq> [] \<and>
        set_throws f FAILED_QUEUE_KEY \<longrightarrow>
        fst (syncNow ex f cFailed (st, w)) = Inl StorageError \<and>
        isSyncing (fst (snd (syncNow ex f cFailed (st, w)))) \<and>
        syncProgress (fst (snd (syncNow ex f cFailed (st, w)))) =
          Some \<lparr>current = length q, total = length q\<rparr>) \<and>
     (\<not> (set_throws f QUEUE_KEY \<or>
         newFailed (fst (syncNow_loop ex (length q) 0 q (tally0, st, w))) \<noteq> [] \<and>
           set_throws f FAILED_QUEUE_KEY) \<longrightarrow>
        fst (syncNow ex f cFailed (st, w)) = Inr () \<and>
        \<not> isSyncing (fst (snd (syncNow ex f cFailed (st, w)))) \<and>
        syncProgress (fst (snd (syncNow ex f cFailed (st, w)))) = None)"
  unfolding syncNow_nonempty [OF assms]
  by (simp add: syncNow_commit_def syncNow_finish_def Let_def)

text \<open>
  C10 at concrete inputs: the write of the pending queue rejects, the write of the
  dead-letter queue rejects, and no write rejects.
\<close>

theorem storage_failure_keeps_isSyncing_witness:
  "fst (syncNow ex_demo (faults_on QUEUE_KEY) [] (engine_of [act_A] [], [])) =
     Inl StorageError \<and>
   isSyncing (fst (snd (syncNow ex_demo (faults_on QUEUE_KEY) [] (engine_of [act_A] [], [])))) \<and>
   syncProgress (fst (snd (syncNow ex_demo (faults_on QUEUE_KEY) [] (engine_of [act_A] [], [])))) =
     Some \<lparr>current = 1, total = 1\<rparr> \<and>
   fst (syncNow ex_demo (faults_on FAILED_QUEUE_KEY) []
     (engine_of [act_D\<lparr>retryCount := Some 3\<rparr>] [], [])) = Inl StorageError \<and>
   isSyncing (fst (snd (syncNow ex_demo (faults_on FAILED_QUEUE_KEY) []
     (engine_of [act_D\<lparr>retryCount := Some 3\<rparr>] [], [])))) \<and>
   fst (syncNow ex_demo no_faults [] (engine_of [act_A] [], [])) = Inr () \<and>
   \<not> isSyncing (fst (snd (syncNow ex_demo no_faults [] (engine_of [act_A] [], [])))) \<and>
   syncProgress (fst (snd (syncNow ex_demo no_faults [] (engine_of [act_A] [], [])))) = None"
proof -
  let ?st = "engine_of [act_A] [] :: string engine"
  let ?d3 = "act_D\<lparr>retryCount := Some 3\<rparr>"
  let ?sd = "engine_of [?d3] [] :: string engine"
  have g1: "\<not> get_throws (faults_on QUEUE_KEY) QUEUE_KEY" by (simp add: faults_on_def)
  have g2: "\<not> get_throws no_faults QUEUE_KEY" by (simp add: no_faults_def)
  have g3: "\<not> get_throws (faults_on FAILED_QUEUE_KEY) QUEUE_KEY" by (simp add: faults_on_def)
  have s: "idb ?st QUEUE_KEY = Some [act_A]" by (simp add: engine_of_def)
  have sd: "idb ?sd QUEUE_KEY = Some [?d3]" by (simp add: engine_of_def)
  have ne: "[act_A] \<noteq> []" and ned: "[?d3] \<noteq> []" by simp_all
  have thr: "set_throws (faults_on QUEUE_KEY) QUEUE_KEY" by (simp add: faults_on_def)
  have thrd: "set_throws (faults_on FAILED_QUEUE_KEY) FAILED_QUEUE_KEY"
    by (simp add: faults_on_def)
  have nf: "newFailed (fst (syncNow_loop ex_demo (length [act_A]) 0 [act_A]
      (tally0, ?st, []))) = []"
    by (simp add: run_executor_def ex_demo_def act_A_def settle_def tally0_def)
  have nfd: "newFailed (fst (syncNow_loop ex_demo (length [?d3]) 0 [?d3]
      (tally0, ?sd, []))) \<noteq> []"
    by (simp add: run_executor_def ex_demo_def act_D_def settle_def tally0_def
        currentRetries_def MAX_RETRIES_def)
  have ok: "\<not> set_throws no_faults QUEUE_KEY" by (simp add: no_faults_def)
  from storage_failure_keeps_isSyncing [OF g1 s ne, of ex_demo "[]" "[]"] thr
  have a: "fst (syncNow ex_demo (faults_on QUEUE_KEY) [] (?st, [])) = Inl StorageError \<and>
        isSyncing (fst (snd (syncNow ex_demo (faults_on QUEUE_KEY) [] (?st, [])))) \<and>
        syncProgress (fst (snd (syncNow ex_demo (faults_on QUEUE_KEY) [] (?st, [])))) =
          Some \<lparr>current = length [act_A], total = length [act_A]\<rparr>"
    by blast
  from storage_failure_keeps_isSyncing [OF g3 sd ned, of ex_demo "[]" "[]"] thrd nfd
  have c: "fst (syncNow ex_demo (faults_on FAILED_QUEUE_KEY) [] (?sd, [])) = Inl StorageError \<and>
        isSyncing (fst (snd (syncNow ex_demo (faults_on FAILED_QUEUE_KEY) [] (?sd, []))))"
    by blast
  from storage_failure_keeps_isSyncing [OF g2 s ne, of ex_demo "[]" "[]"] nf ok
  have b: "fst (syncNow ex_demo no_faults [] (?st, [])) = Inr () \<and>
        \<not> isSyncing (fst (snd (syncNow ex_demo no_faults [] (?st, [])))) \<and>
        syncProgress (fst (snd (syncNow ex_demo no_faults [] (?st, [])))) = None"
    by blast
  from a b c show ?thesis by simp
qed

subsection \<open>C4: an action type without executor\<close>

text \<open>
  C4, as stated, fails: an action whose type matches no case of the \<open>switch\<close> is not
  treated as a failure. Nothing throws, so \<open>successCount\<close> is incremented: the action
  leaves the pending queue, does not reach the dead-letter queue, and the success toast
  counts it.
\<close>

theorem unmatched_type_counts_as_success:
  "action_type act_X = OTHER_TYPE ''DELETE_NOTICE'' \<and>
   queue (fst (snd (syncNow ex_demo no_faults [] (engine_of [act_X] [], [])))) = [] \<and>
   failedQueue (fst (snd (syncNow ex_demo no_faults [] (engine_of [act_X] [], [])))) = [] \<and>
   toasts (fst (snd (syncNow ex_demo no_faults [] (engine_of [act_X] [], [])))) =
     [ToastSuccess 1]"
  by (simp add: drain_simps engine_of_def act_X_def ex_demo_def no_faults_def)

text \<open>
  C4, amended: for an action whose type matches no case of the \<open>switch\<close>, the only
  one with its id in the stored pending queue, a drain runs no executor (the world is
  unchanged by its iteration), counts it as a success, and drops it: afterwards it is
  neither pending nor newly dead-lettered, and the success toast is shown.
\<close>

theorem unmatched_type_is_dropped:
  assumes nf: "\<not> get_throws f QUEUE_KEY" "\<not> set_throws f QUEUE_KEY"
      "\<not> set_throws f FAILED_QUEUE_KEY"
    and coh: "idb st QUEUE_KEY = Some q"
    and one: "with_id (action_id a) q = [a]"
    and ty: "action_type a = OTHER_TYPE tag"
  shows "run_executor ex a v = (Resolved, v) \<and>
         with_id (action_id a) (queue (fst (drain ex f (st, w)))) = [] \<and>
         with_id (action_id a) (failedQueue (fst (drain ex f (st, w)))) =
           with_id (action_id a) (failedQueue st) \<and>
         (\<exists>n ts. 0 < n \<and> toasts (fst (drain ex f (st, w))) = ts @ [ToastSuccess n])"
proof -
  let ?t = "fst (syncNow_loop ex (length q) 0 q (tally0, st, w))"
  let ?st2 = "st\<lparr>isSyncing := True,
                 syncProgress := Some \<lparr>current = length q, total = length q\<rparr>\<rparr>"
  have ne: "q \<noteq> []" using one by (auto simp: with_id_def)
  have d: "fst (drain ex f (st, w)) = snd (syncNow_commit f (failedQueue st) ?t ?st2)"
    by (simp add: drain_def syncNow_nonempty [OF nf(1) coh ne])
  from loop_one_unmatched [OF one ty, of ex "length q" 0 tally0 st w]
  have r: "with_id (action_id a) (remainingQueue ?t) = []"
    and n: "with_id (action_id a) (newFailed ?t) = []"
    and s: "0 < successCount ?t"
    by (simp_all add: tally0_def with_id_def)
  have 1: "run_executor ex a v = (Resolved, v)" using ty by (simp add: run_executor_def)
  have 2: "with_id (action_id a) (queue (fst (drain ex f (st, w)))) = []"
    unfolding d commit_ok(2) [OF nf(2,3)] by (rule r)
  have 3: "with_id (action_id a) (failedQueue (fst (drain ex f (st, w)))) =
           with_id (action_id a) (failedQueue st)"
    unfolding d commit_ok(3) [OF nf(2,3)] using n by (simp add: with_id_def)
  have 4: "\<exists>n ts. 0 < n \<and> toasts (fst (drain ex f (st, w))) = ts @ [ToastSuccess n]"
    unfolding d commit_ok(8) [OF nf(2,3)] using s
    by (intro exI [of _ "successCount ?t"]
        exI [of _ "toasts ?st2 @ (if newFailed ?t = [] then []
                                   else [ToastError (length (newFailed ?t))])"]) simp
  from 1 2 3 4 show ?thesis by blast
qed

text \<open>The amended C4 at a concrete queue: \<open>act_X\<close> behind an action that fails.\<close>

theorem unmatched_type_is_dropped_witness:
  "with_id ''id-x'' (queue (fst (drain ex_demo no_faults (engine_of [act_B, act_X] [], [])))) = [] \<and>
   with_id ''id-x'' (failedQueue (fst (drain ex_demo no_faults (engine_of [act_B, act_X] [], [])))) = [] \<and>
   toasts (fst (drain ex_demo no_faults (engine_of [act_B, act_X] [], []))) = [ToastSuccess 1]"
proof -
  let ?st = "engine_of [act_B, act_X] [] :: string engine"
  have h1: "\<not> get_throws no_faults QUEUE_KEY" "\<not> set_throws no_faults QUEUE_KEY"
      "\<not> set_throws no_faults FAILED_QUEUE_KEY"
    by (simp_all add: no_faults_def)
  have h2: "idb ?st QUEUE_KEY = Some [act_B, act_X]" by (simp add: engine_of_def)
  have h3: "with_id (action_id act_X) [act_B, act_X] = [act_X]"
    by (simp add: with_id_def act_B_def act_X_def)
  have h4: "action_type act_X = OTHER_TYPE ''DELETE_NOTICE''" by (simp add: act_X_def)
  have idx: "action_id act_X = ''id-x''" by (simp add: act_X_def)
  have fq: "with_id ''id-x'' (failedQueue ?st) = []" by (simp add: engine_of_def with_id_def)
  from unmatched_type_is_dropped [OF h1 h2 h3 h4, of ex_demo "[]" "[]"]
  have a: "with_id ''id-x'' (queue (fst (drain ex_demo no_faults (?st, [])))) = []"
    and b: "with_id ''id-x'' (failedQueue (fst (drain ex_demo no_faults (?st, [])))) = []"
    by (simp_all only: idx fq)
  have c: "toasts (fst (drain ex_demo no_faults (?st, []))) = [ToastSuccess 1]"
    by (simp add: drain_simps engine_of_def act_B_def act_X_def ex_demo_def no_faults_def)
  from a b c show ?thesis by blast
qed

subsection \<open>C3: actions enqueued during a drain\<close>

text \<open>
  C3, as stated, fails: \<open>act_C\<close> is enqueued (in memory and in the store) while a
  drain of \<open>[act_B]\<close> awaits its executor; the drain ends normally and leaves exactly
  the retried \<open>act_B\<close> in the pending queue, in memory and in the store. \<open>act_C\<close>
  is gone.
\<close>

theorem enqueue_during_drain_is_lost:
  "act_C \<in> set (queue (enqueue_C (snd (syncNow_begin no_faults (engine_of [act_B] []))))) \<and>
   idb (enqueue_C (snd (syncNow_begin no_faults (engine_of [act_B] [])))) QUEUE_KEY =
     Some [act_B, act_C] \<and>
   fst (syncNow_interleaved ex_demo no_faults [] enqueue_C (engine_of [act_B] [], [])) = Inr () \<and>
   queue (fst (snd (syncNow_interleaved ex_demo no_faults [] enqueue_C
     (engine_of [act_B] [], [])))) =
     [act_B\<lparr>retryCount := Some 1, lastError := Some ''denied''\<rparr>] \<and>
   idb (fst (snd (syncNow_interleaved ex_demo no_faults [] enqueue_C
     (engine_of [act_B] [], [])))) QUEUE_KEY =
     Some [act_B\<lparr>retryCount := Some 1, lastError := Some ''denied''\<rparr>] \<and>
   act_C \<notin> set (queue (fst (snd (syncNow_interleaved ex_demo no_faults [] enqueue_C
     (engine_of [act_B] [], [])))))"
  by (simp add: syncNow_interleaved_def drain_simps enqueue_C_def addOfflineAction_latest_def
      addOfflineAction_def newAction_def engine_of_def act_B_def act_C_def ex_demo_def
      no_faults_def)

text \<open>
  C3, amended. A drain writes the pending queue once, after its loop. Whatever was
  enqueued between its snapshot and that write is overwritten: when nothing is enqueued
  later, the pending queue after the drain, in memory and in the store, is exactly the
  sequence of the retried actions of the snapshot, with no id that was not in the
  snapshot. An action enqueued after that write, while the drain awaits the write of the
  pending queue or (when an action was dead-lettered) the write of the dead-letter queue,
  is not overwritten by the drain: when nothing else runs after it, the pending queue
  after the drain is the captured queue of that enqueue followed by the new action, which
  for the callback of the latest render (nothing else running in the late windows) is the
  retried actions of the snapshot followed by the new action.
\<close>

theorem drain_keeps_only_late_enqueues:
  assumes "\<not> get_throws f QUEUE_KEY" and "\<not> set_throws f QUEUE_KEY"
    and "idb st QUEUE_KEY = Some q" and "q \<noteq> []"
  shows
    "queue (fst (snd (syncNow_windows ex f cFailed early id id (st, w)))) =
       remainingQueue (fst (syncNow_loop ex (length q) 0 q (tally0, st, w))) \<and>
     idb (fst (snd (syncNow_windows ex f cFailed early id id (st, w)))) QUEUE_KEY =
       Some (remainingQueue (fst (syncNow_loop ex (length q) 0 q (tally0, st, w)))) \<and>
     action_id ` set (queue (fst (snd (syncNow_windows ex f cFailed early id id (st, w)))))
       \<subseteq> action_id ` set q \<and>
     queue (fst (snd (syncNow_windows ex f cFailed early
         (enqueued f' cQueue newId now ty pl) id (st, w)))) =
       cQueue @ [newAction newId now ty pl] \<and>
     queue (fst (snd (syncNow_windows ex f cFailed early
         (enqueued_latest f' newId now ty pl) id (st, w)))) =
       remainingQueue (fst (syncNow_loop ex (length q) 0 q (tally0, st, w))) @
         [newAction newId now ty pl] \<and>
     (\<not> set_throws f' QUEUE_KEY \<longrightarrow>
        idb (fst (snd (syncNow_windows ex f cFailed early
            (enqueued f' cQueue newId now ty pl) id (st, w)))) QUEUE_KEY =
          Some (cQueue @ [newAction newId now ty pl]) \<and>
        idb (fst (snd (syncNow_windows ex f cFailed early
            (enqueued_latest f' newId now ty pl) id (st, w)))) QUEUE_KEY =
          Some (remainingQueue (fst (syncNow_loop ex (length q) 0 q (tally0, st, w))) @
            [newAction newId now ty pl])) \<and>
     (newFailed (fst (syncNow_loop ex (length q) 0 q (tally0, st, w))) \<noteq> [] \<longrightarrow>
        queue (fst (snd (syncNow_windows ex f cFailed early late1
            (enqueued f' cQueue newId now ty pl) (st, w)))) =
          cQueue @ [newAction newId now ty pl] \<and>
        queue (fst (snd (syncNow_windows ex f cFailed early id
            (enqueued_latest f' newId now ty pl) (st, w)))) =
          remainingQueue (fst (syncNow_loop ex (length q) 0 q (tally0, st, w))) @
            [newAction newId now ty pl] \<and>
        (\<not> set_throws f' QUEUE_KEY \<longrightarrow>
           idb (fst (snd (syncNow_windows ex f cFailed early late1
               (enqueued f' cQueue newId now ty pl) (st, w)))) QUEUE_KEY =
             Some (cQueue @ [newAction newId now ty pl]) \<and>
           idb (fst (snd (syncNow_windows ex f cFailed early id
               (enqueued_latest f' newId now ty pl) (st, w)))) QUEUE_KEY =
             Some (remainingQueue (fst (syncNow_loop ex (length q) 0 q (tally0, st, w))) @
               [newAction newId now ty pl])))"
proof -
  let ?t = "fst (syncNow_loop ex (length q) 0 q (tally0, st, w))"
  note W = syncNow_windows_nonempty [OF assms(1,3,4)]
  have e1: "queue (fst (snd (syncNow_windows ex f cFailed early id id (st, w)))) =
      remainingQueue ?t"
    unfolding W commit_windows_nothing by (rule commit_queue)
  have e2: "idb (fst (snd (syncNow_windows ex f cFailed early id id (st, w)))) QUEUE_KEY =
      Some (remainingQueue ?t)"
    unfolding W commit_windows_nothing by (rule commit_stored_queue [OF assms(2)])
  have e3: "action_id ` set (remainingQueue ?t) \<subseteq> action_id ` set q"
    using loop_ids_subset [of ex "length q" 0 q tally0 st w] by (simp add: tally0_def)
  have e3': "action_id ` set (queue (fst (snd (syncNow_windows ex f cFailed early id id
      (st, w))))) \<subseteq> action_id ` set q"
    unfolding e1 by (rule e3)
  note L1 = commit_windows_late1 [OF assms(2)]
  note L2 = commit_windows_late2 [OF assms(2)]
  have a1: "queue (fst (snd (syncNow_windows ex f cFailed early
         (enqueued f' cQueue newId now ty pl) id (st, w)))) =
       cQueue @ [newAction newId now ty pl]"
    unfolding W by (rule L1(1))
  have a2: "queue (fst (snd (syncNow_windows ex f cFailed early
         (enqueued_latest f' newId now ty pl) id (st, w)))) =
       remainingQueue ?t @ [newAction newId now ty pl]"
    unfolding W by (rule L1(3))
  have a3: "\<not> set_throws f' QUEUE_KEY \<Longrightarrow>
        idb (fst (snd (syncNow_windows ex f cFailed early
            (enqueued f' cQueue newId now ty pl) id (st, w)))) QUEUE_KEY =
          Some (cQueue @ [newAction newId now ty pl])"
    unfolding W by (rule L1(2))
  have a4: "\<not> set_throws f' QUEUE_KEY \<Longrightarrow>
        idb (fst (snd (syncNow_windows ex f cFailed early
            (enqueued_latest f' newId now ty pl) id (st, w)))) QUEUE_KEY =
          Some (remainingQueue ?t @ [newAction newId now ty pl])"
    unfolding W by (rule L1(4))
  have b1: "newFailed ?t \<noteq> [] \<Longrightarrow>
        queue (fst (snd (syncNow_windows ex f cFailed early late1
            (enqueued f' cQueue newId now ty pl) (st, w)))) =
          cQueue @ [newAction newId now ty pl]"
    unfolding W by (rule L2(1))
  have b2: "newFailed ?t \<noteq> [] \<Longrightarrow>
        queue (fst (snd (syncNow_windows ex f cFailed early id
            (enqueued_latest f' newId now ty pl) (st, w)))) =
          remainingQueue ?t @ [newAction newId now ty pl]"
    unfolding W by (rule L2(3))
  have b3: "newFailed ?t \<noteq> [] \<Longrightarrow> \<not> set_throws f' QUEUE_KEY \<Longrightarrow>
        idb (fst (snd (syncNow_windows ex f cFailed early late1
            (enqueued f' cQueue newId now ty pl) (st, w)))) QUEUE_KEY =
          Some (cQueue @ [newAction newId now ty pl])"
    unfolding W by (rule L2(2))
  have b4: "newFailed ?t \<noteq> [] \<Longrightarrow> \<not> set_throws f' QUEUE_KEY \<Longrightarrow>
        idb (fst (snd (syncNow_windows ex f cFailed early id
            (enqueued_latest f' newId now ty pl) (st, w)))) QUEUE_KEY =
          Some (remainingQueue ?t @ [newAction newId now ty pl])"
    unfolding W by (rule L2(4))
  from e1 e2 e3' a1 a2 a3 a4 b1 b2 b3 b4 show ?thesis by blast
qed

text \<open>
  The amended C3 at concrete inputs: \<open>act_C\<close> is enqueued before the write of the
  pending queue, during that write, and during the write of the dead-letter queue.
\<close>

theorem drain_keeps_only_late_enqueues_witness:
  "queue (fst (snd (syncNow_windows ex_demo no_faults [] enqueue_C id id
     (engine_of [act_B] [], [])))) =
     [act_B\<lparr>retryCount := Some 1, lastError := Some ''denied''\<rparr>] \<and>
   queue (fst (snd (syncNow_windows ex_demo no_faults [] id
     (enqueued_latest no_faults ''id-c'' 3 POST_NOTICE ''pc'') id
     (engine_of [act_B] [], [])))) =
     [act_B\<lparr>retryCount := Some 1, lastError := Some ''denied''\<rparr>, act_C] \<and>
   idb (fst (snd (syncNow_windows ex_demo no_faults [] id
     (enqueued_latest no_faults ''id-c'' 3 POST_NOTICE ''pc'') id
     (engine_of [act_B] [], [])))) QUEUE_KEY =
     Some [act_B\<lparr>retryCount := Some 1, lastError := Some ''denied''\<rparr>, act_C] \<and>
   queue (fst (snd (syncNow_windows ex_demo no_faults [] id id
     (enqueued_latest no_faults ''id-c'' 3 POST_NOTICE ''pc'')
     (engine_of [act_D\<lparr>retryCount := Some 3\<rparr>] [], [])))) = [act_C]"
proof -
  let ?st = "engine_of [act_B] [] :: string engine"
  let ?d3 = "act_D\<lparr>retryCount := Some 3\<rparr>"
  let ?sd = "engine_of [?d3] [] :: string engine"
  have h1: "\<not> get_throws no_faults QUEUE_KEY" and h2: "\<not> set_throws no_faults QUEUE_KEY"
    by (simp_all add: no_faults_def)
  have h3: "idb ?st QUEUE_KEY = Some [act_B]" and h3d: "idb ?sd QUEUE_KEY = Some [?d3]"
    by (simp_all add: engine_of_def)
  have h4: "[act_B] \<noteq> []" and h4d: "[?d3] \<noteq> []" by simp_all
  have rem: "remainingQueue (fst (syncNow_loop ex_demo (length [act_B]) 0 [act_B]
      (tally0, ?st, []))) = [act_B\<lparr>retryCount := Some 1, lastError := Some ''denied''\<rparr>]"
    by (simp add: run_executor_def ex_demo_def act_B_def settle_def tally0_def
        currentRetries_def MAX_RETRIES_def)
  have remd: "remainingQueue (fst (syncNow_loop ex_demo (length [?d3]) 0 [?d3]
      (tally0, ?sd, []))) = []"
    and nfd: "newFailed (fst (syncNow_loop ex_demo (length [?d3]) 0 [?d3]
      (tally0, ?sd, []))) \<noteq> []"
    by (simp_all add: run_executor_def ex_demo_def act_D_def settle_def tally0_def
        currentRetries_def MAX_RETRIES_def)
  have nc: "newAction ''id-c'' 3 POST_NOTICE ''pc'' = act_C"
    by (simp add: newAction_def act_C_def)
  note T1 = drain_keeps_only_late_enqueues [OF h1 h2 h3 h4,
      where ex = ex_demo and cFailed = "[]" and w = "[]" and f' = no_faults
        and newId = "''id-c''" and now = 3 and ty = POST_NOTICE and pl = "''pc''"]
  have a: "queue (fst (snd (syncNow_windows ex_demo no_faults [] enqueue_C id id (?st, [])))) =
      [act_B\<lparr>retryCount := Some 1, lastError := Some ''denied''\<rparr>]"
    using T1 [where early = enqueue_C] by (simp only: rem)
  have b: "queue (fst (snd (syncNow_windows ex_demo no_faults [] id
      (enqueued_latest no_faults ''id-c'' 3 POST_NOTICE ''pc'') id (?st, [])))) =
      [act_B\<lparr>retryCount := Some 1, lastError := Some ''denied''\<rparr>, act_C]"
    using T1 [where early = id] by (simp only: rem nc append.simps)
  have c: "idb (fst (snd (syncNow_windows ex_demo no_faults [] id
      (enqueued_latest no_faults ''id-c'' 3 POST_NOTICE ''pc'') id (?st, [])))) QUEUE_KEY =
      Some [act_B\<lparr>retryCount := Some 1, lastError := Some ''denied''\<rparr>, act_C]"
    using T1 [where early = id] h2 by (simp only: rem nc append.simps) blast
  from drain_keeps_only_late_enqueues [OF h1 h2 h3d h4d,
      where ex = ex_demo and cFailed = "[]" and w = "[]" and f' = no_faults and early = id
        and newId = "''id-c''" and now = 3 and ty = POST_NOTICE and pl = "''pc''"] nfd
  have d: "queue (fst (snd (syncNow_windows ex_demo no_faults [] id id
      (enqueued_latest no_faults ''id-c'' 3 POST_NOTICE ''pc'') (?sd, [])))) = [act_C]"
    by (simp only: remd nc append.simps) blast
  from a b c d show ?thesis by blast
qed

subsection \<open>C8: the batch and its order\<close>

text \<open>
  C8: a drain over a non-empty stored pending queue \<open>q\<close> runs the executors over
  \<open>q\<close> from its first action to its last, each one in the world the one before left.
  The batch is the stored sequence: the in-memory queue plays no part, and neither does
  anything enqueued while the drain is in progress. With executors that record their
  calls, the calls made are those of the actions of \<open>q\<close>, in the order of \<open>q\<close>.
\<close>

theorem drain_runs_snapshot_in_order:
  assumes "\<not> get_throws f QUEUE_KEY" and "idb st QUEUE_KEY = Some q" and "q \<noteq> []"
  shows "snd (snd (syncNow ex f cFailed (st, w))) =
           foldl (\<lambda>v a. snd (run_executor ex a v)) w q \<and>
         snd (snd (syncNow ex f cFailed (st\<lparr>queue := mem\<rparr>, w))) =
           foldl (\<lambda>v a. snd (run_executor ex a v)) w q \<and>
         snd (snd (syncNow_interleaved ex f cFailed other (st, w))) =
           foldl (\<lambda>v a. snd (run_executor ex a v)) w q \<and>
         snd (snd (syncNow (recording outcome) f cFailed (st, calls))) =
           calls @ map (\<lambda>a. (action_type a, payload a)) (filter has_executor q)"
proof -
  have s: "idb (st\<lparr>queue := mem\<rparr>) QUEUE_KEY = Some q" using assms(2) by simp
  show ?thesis
    by (simp add: syncNow_nonempty [OF assms] syncNow_nonempty [OF assms(1) s assms(3)]
        syncNow_interleaved_nonempty [OF assms] recording_calls)
qed

text \<open>
  C8 at a concrete input: the stored queue is \<open>[act_C, act_B, act_A]\<close>, the in-memory
  queue or the enqueue during the drain hold other actions.
\<close>

theorem drain_runs_snapshot_in_order_witness:
  "snd (snd (syncNow ex_demo no_faults []
     ((engine_of [act_C, act_B, act_A] [])\<lparr>queue := [act_D]\<rparr>, []))) = [''pc'', ''pa''] \<and>
   snd (snd (syncNow_interleaved ex_demo no_faults [] enqueue_C
     (engine_of [act_C, act_B, act_A] [], []))) = [''pc'', ''pa''] \<and>
   snd (snd (syncNow (recording all_resolve) no_faults []
     (engine_of [act_C, act_B, act_A] [], []))) =
     [(POST_NOTICE, ''pc''), (GRADE_ACTIVITY, ''pb''), (SUBMIT_ACTIVITY, ''pa'')]"
proof -
  let ?st = "engine_of [act_C, act_B, act_A] [] :: string engine"
  have h1: "\<not> get_throws no_faults QUEUE_KEY" by (simp add: no_faults_def)
  have h2: "idb ?st QUEUE_KEY = Some [act_C, act_B, act_A]" by (simp add: engine_of_def)
  have h3: "[act_C, act_B, act_A] \<noteq> []" by simp
  have run: "foldl (\<lambda>v a. snd (run_executor ex_demo a v)) [] [act_C, act_B, act_A] =
      [''pc'', ''pa'']"
    by (simp add: run_executor_def ex_demo_def act_A_def act_B_def act_C_def)
  have calls: "[] @ map (\<lambda>a. (action_type a, payload a))
      (filter has_executor [act_C, act_B, act_A]) =
      [(POST_NOTICE, ''pc''), (GRADE_ACTIVITY, ''pb''), (SUBMIT_ACTIVITY, ''pa'')]"
    by (simp add: has_executor_def act_A_def act_B_def act_C_def)
  from drain_runs_snapshot_in_order [OF h1 h2 h3,
      where ex = ex_demo and cFailed = "[]" and w = "[]" and mem = "[act_D]"
        and other = enqueue_C and outcome = all_resolve and calls = "[]"]
  show ?thesis by (simp only: run calls)
qed

subsection \<open>C5: one queue per action id\<close>

text \<open>
  C5 does not hold of \<open>retryFailedAction\<close>. From the engine of the first render, the
  run \<open>retry_scenario\<close> reaches a state with \<open>act_B\<close> pending and \<open>act_D\<close>
  dead-lettered. Retrying \<open>act_D\<close> moves it to the pending queue, and the drain that
  \<open>retryFailedAction\<close> starts, in which \<open>act_B\<close> is dead-lettered, writes the
  \<open>failedQueue\<close> of its closure, which still holds \<open>act_D\<close>: afterwards
  \<open>act_D\<close> is in both queues.
\<close>

theorem retry_leaves_action_in_both_queues:
  "queue (fst retry_scenario) =
     [act_B\<lparr>retryCount := Some 3, lastError := Some ''denied''\<rparr>] \<and>
   failedQueue (fst retry_scenario) =
     [act_D\<lparr>retryCount := Some 3, lastError := Some ''denied''\<rparr>] \<and>
   queues_distinct (fst retry_scenario) \<and>
   queue (fst (retryFailedAction_sync ex_demo no_faults ''id-d'' retry_scenario)) =
     [act_D\<lparr>retryCount := Some 1, lastError := Some ''denied''\<rparr>] \<and>
   failedQueue (fst (retryFailedAction_sync ex_demo no_faults ''id-d'' retry_scenario)) =
     [act_D\<lparr>retryCount := Some 3, lastError := Some ''denied''\<rparr>,
      act_B\<lparr>retryCount := Some 3, lastError := Some ''denied''\<rparr>] \<and>
   \<not> queues_distinct (fst (retryFailedAction_sync ex_demo no_faults ''id-d'' retry_scenario))"
  by (simp add: retry_scenario_def retryFailedAction_sync_def retryFailedAction_def
      queues_distinct_def numeral_3_eq_3 drain_simps addOfflineAction_latest_def
      addOfflineAction_def newAction_def engine_init_def
      act_B_def act_D_def ex_demo_def no_faults_def)

end
